theory Spec2Isabelle
  imports Complex_Main "HOL-Library.Multiset" "HOL-Library.Sublist"
begin

section \<open>Data model of the metrics and alerts packages\<close>

text \<open>
  Conventions of the embedding.
  \<^item> A \<open>float64\<close> that a record holds or the sample source delivers is the
    \<^typ>\<open>real\<close> it denotes: these values are finite. The arithmetic on them, in
    \<open>calculateSeverity\<close>, is that of \<open>float64\<close>: every operation rounds, overflows to an
    infinity, and a division by zero gives an infinity or NaN.
  \<^item> A \<open>time.Time\<close> is an instant of type \<^typ>\<open>nat\<close>.
  \<^item> A Go string is a \<^typ>\<open>string\<close>, the list of its bytes.
  \<^item> The database behind \<open>*gorm.DB\<close> is a record of tables, each table the list of its rows
    in primary-key order. Every call into the database may fail: the outcome of the
    upcoming calls is the script \<open>faults\<close> of the world, consumed one entry per call
    (\<open>True\<close>: the call returns an error; an exhausted script: the call succeeds).
  \<^item> \<open>log.Printf\<close> appends an event to the log of the world.
  \<^item> The clock read by \<open>time.Now()\<close> and the answers of the sample source
    (\<open>cpu.Percent\<close>, \<open>mem.VirtualMemory\<close>; no answer stands for an error) are fields
    of the world that the environment sets before a cycle.
\<close>

type_synonym MetricType = string
type_synonym Time = nat

record Metric =
  ID :: nat
  Type :: MetricType
  Value :: real
  Unit :: string
  Timestamp :: Time
  CreatedAt :: Time

record SystemMetrics =
  CPUUsage :: real
  MemoryUsage :: real
  Timestamp :: Time

record MetricThreshold =
  ID :: nat
  Type :: MetricType
  Threshold :: real
  Enabled :: bool
  CreatedAt :: Time
  UpdatedAt :: Time

definition CPUUsage :: MetricType where
  "CPUUsage = ''cpu_usage''"

definition MemoryUsage :: MetricType where
  "MemoryUsage = ''memory_usage''"

datatype AlertStatus = AlertActive | AlertResolved

datatype AlertSeverity = SeverityLow | SeverityMedium | SeverityHigh | SeverityCritical

record Alert =
  ID :: nat
  Type :: MetricType
  Message :: string
  Value :: real
  Threshold :: real
  Severity :: AlertSeverity
  Status :: AlertStatus
  TriggeredAt :: Time
  ResolvedAt :: "Time option"
  CreatedAt :: Time
  UpdatedAt :: Time

datatype gorm_error = ErrRecordNotFound | ErrDatabase

datatype sample_error = FailedToGetCPUUsage | FailedToGetMemoryUsage

datatype alert_error =
    FailedToGetThresholds gorm_error
  | FailedToResolveAlert gorm_error
  | AlertNotFoundOrAlreadyResolved

datatype LogEvent =
    LogFailedCreateAlert gorm_error
  | LogAlertCreated MetricType real real
  | LogFailedResolve MetricType gorm_error
  | LogResolved nat MetricType
  | LogStartingCollection
  | LogStoppedByContext
  | LogStopped
  | LogErrorCollecting sample_error
  | LogFailedSaveCPU gorm_error
  | LogFailedSaveMemory gorm_error
  | LogCollected real real
  | LogFailedCurrentMetrics sample_error
  | LogFailedCheck alert_error

record World =
  metric_thresholds :: "MetricThreshold list"
  alerts :: "Alert list"
  alerts_seq :: nat
  metrics :: "Metric list"
  metrics_seq :: nat
  logs :: "LogEvent list"
  faults :: "bool list"
  clock :: Time
  cpu_Percent :: "real list option"
  mem_UsedPercent :: "real option"

section \<open>The database calls the services make\<close>

text \<open>Whether the upcoming call fails, and the world once the call was made.\<close>

definition failing :: "World \<Rightarrow> bool" where
  "failing w = (case faults w of [] \<Rightarrow> False | f # _ \<Rightarrow> f)"

definition db_call :: "World \<Rightarrow> World" where
  "db_call w = w\<lparr>faults := tl (faults w)\<rparr>"

definition log_Printf :: "LogEvent \<Rightarrow> World \<Rightarrow> World" where
  "log_Printf e w = w\<lparr>logs := logs w @ [e]\<rparr>"

text \<open>\<open>db.Where("enabled = ?", true).Find(&thresholds)\<close>\<close>

definition find_enabled_thresholds :: "World \<Rightarrow> (gorm_error + MetricThreshold list) \<times> World" where
  "find_enabled_thresholds w =
     (if failing w then (Inl ErrDatabase, db_call w)
      else (Inr (filter Enabled (metric_thresholds w)), db_call w))"

text \<open>The row predicate \<open>metric_type = ? AND status = 'active'\<close>.\<close>

definition active_of :: "MetricType \<Rightarrow> Alert \<Rightarrow> bool" where
  "active_of t a = (Alert.Type a = t \<and> Status a = AlertActive)"

text \<open>\<open>db.Where("metric_type = ? AND status = ?", t, AlertActive).First(&existingAlert)\<close>\<close>

definition first_active_alert :: "MetricType \<Rightarrow> World \<Rightarrow> (gorm_error + Alert) \<times> World" where
  "first_active_alert t w =
     (if failing w then (Inl ErrDatabase, db_call w)
      else (case filter (active_of t) (alerts w) of
              [] \<Rightarrow> (Inl ErrRecordNotFound, db_call w)
            | a # _ \<Rightarrow> (Inr a, db_call w)))"

text \<open>\<open>db.Create(&alert)\<close>: the row gets the next id and the timestamps gorm maintains.\<close>

definition create_alert :: "Alert \<Rightarrow> World \<Rightarrow> gorm_error option \<times> World" where
  "create_alert a w =
     (if failing w then (Some ErrDatabase, db_call w)
      else (None,
            (db_call w)\<lparr>alerts := alerts w @
                   [a\<lparr>Alert.ID := Suc (alerts_seq w),
                      Alert.CreatedAt := clock w, Alert.UpdatedAt := clock w\<rparr>],
               alerts_seq := Suc (alerts_seq w)\<rparr>))"

text \<open>
  \<open>db.Model(&Alert{}).Where(...).Updates({"status": AlertResolved, "resolved_at": &now})\<close>:
  the result carries \<open>Error\<close> and \<open>RowsAffected\<close>.
\<close>

definition resolve_row :: "Time \<Rightarrow> Time \<Rightarrow> Alert \<Rightarrow> Alert" where
  "resolve_row now upd a =
     a\<lparr>Status := AlertResolved, ResolvedAt := Some now, Alert.UpdatedAt := upd\<rparr>"

definition update_resolved ::
  "(Alert \<Rightarrow> bool) \<Rightarrow> Time \<Rightarrow> World \<Rightarrow> (gorm_error option \<times> nat) \<times> World" where
  "update_resolved cond now w =
     (if failing w then ((Some ErrDatabase, 0), db_call w)
      else ((None, length (filter cond (alerts w))),
            (db_call w)\<lparr>alerts := map (\<lambda>a. if cond a then resolve_row now (clock w) a else a)
                                      (alerts w)\<rparr>))"

section \<open>The alert service\<close>

subsection \<open>Formatting with \<open>%.2f\<close>\<close>

definition digit_char :: "nat \<Rightarrow> char" where
  "digit_char d = char_of (48 + d)"

function showNat :: "nat \<Rightarrow> string" where
  "showNat n = (if n < 10 then [digit_char n] else showNat (n div 10) @ [digit_char (n mod 10)])"
  by pat_completeness auto
termination
  by (relation "measure id") auto

declare showNat.simps [simp del]

text \<open>Nearest hundredth, a tie going to the even neighbour.\<close>

definition hundredths :: "real \<Rightarrow> nat" where
  "hundredths x =
     (let y = \<bar>x\<bar> * 100; f = \<lfloor>y\<rfloor> in
      nat (if y - of_int f < 1 / 2 then f
           else if 1 / 2 < y - of_int f then f + 1
           else if even f then f else f + 1))"

definition Sprintf_2f :: "real \<Rightarrow> string" where
  "Sprintf_2f x =
     (let n = hundredths x in
      (if x < 0 then ''-'' else '''') @ showNat (n div 100) @ ''.'' @
      [digit_char (n div 10 mod 10), digit_char (n mod 10)])"

definition generateAlertMessage :: "MetricType \<Rightarrow> real \<Rightarrow> real \<Rightarrow> string" where
  "generateAlertMessage metricType v threshold =
     (if metricType = CPUUsage then
        ''High CPU usage detected: '' @ Sprintf_2f v @ ''% (threshold: '' @
        Sprintf_2f threshold @ ''%)''
      else if metricType = MemoryUsage then
        ''High memory usage detected: '' @ Sprintf_2f v @ ''% (threshold: '' @
        Sprintf_2f threshold @ ''%)''
      else
        ''Threshold breached for '' @ metricType @ '': '' @ Sprintf_2f v @
        ''% (threshold: '' @ Sprintf_2f threshold @ ''%)'')"

subsection \<open>The arithmetic of \<open>float64\<close>\<close>

text \<open>
  A \<open>float64\<close> is a finite value, the negative zero, an infinity or NaN; \<open>Fin 0\<close> is the
  positive zero. A finite value is given by the real number it denotes.
\<close>

datatype float64 = Fin real | NegZero | PInf | NInf | NaN

function bit_length :: "nat \<Rightarrow> nat" where
  "bit_length n = (if n = 0 then 0 else Suc (bit_length (n div 2)))"
  by pat_completeness auto
termination
  by (relation "measure id") auto

declare bit_length.simps [simp del]

text \<open>The exponent of a positive real: the integer \<open>k\<close> with \<open>2 ^ k \<le> a < 2 ^ (k + 1)\<close>.\<close>

definition ilog2 :: "real \<Rightarrow> int" where
  "ilog2 a =
     (if 1 \<le> a then int (bit_length (nat \<lfloor>a\<rfloor>)) - 1
      else - int (bit_length (nat (\<lceil>1 / a\<rceil> - 1))))"

definition pow2 :: "int \<Rightarrow> real" where
  "pow2 e = (if 0 \<le> e then 2 ^ nat e else 1 / 2 ^ nat (- e))"

text \<open>The nearest integer, a tie going to the even one.\<close>

definition round_even :: "real \<Rightarrow> int" where
  "round_even y =
     (if y - of_int \<lfloor>y\<rfloor> < 1 / 2 then \<lfloor>y\<rfloor>
      else if 1 / 2 < y - of_int \<lfloor>y\<rfloor> then \<lfloor>y\<rfloor> + 1
      else if even \<lfloor>y\<rfloor> then \<lfloor>y\<rfloor> else \<lfloor>y\<rfloor> + 1)"

definition signed_zero :: "bool \<Rightarrow> float64" where
  "signed_zero negative = (if negative then NegZero else Fin 0)"

definition signed_inf :: "bool \<Rightarrow> float64" where
  "signed_inf negative = (if negative then NInf else PInf)"

text \<open>
  Rounding of an exact result to the nearest \<open>float64\<close>, a tie going to the even
  significand: 53 bits of significand, the least exponent that of the subnormal numbers,
  an infinity from \<open>2 ^ 1024\<close> on.
\<close>

definition round64 :: "real \<Rightarrow> float64" where
  "round64 x =
     (let e = max (ilog2 \<bar>x\<bar> - 52) (- 1074);
          m = round_even (\<bar>x\<bar> / pow2 e);
          r = of_int m * pow2 e
      in if x = 0 then Fin 0
         else if 2 ^ 1024 \<le> r then signed_inf (x < 0)
         else if m = 0 then signed_zero (x < 0)
         else Fin (if x < 0 then - r else r))"

fun is_neg :: "float64 \<Rightarrow> bool" where
  "is_neg (Fin x) = (x < 0)"
| "is_neg NegZero = True"
| "is_neg NInf = True"
| "is_neg _ = False"

fun is_zero :: "float64 \<Rightarrow> bool" where
  "is_zero (Fin x) = (x = 0)"
| "is_zero NegZero = True"
| "is_zero _ = False"

fun is_inf :: "float64 \<Rightarrow> bool" where
  "is_inf PInf = True"
| "is_inf NInf = True"
| "is_inf _ = False"

fun val :: "float64 \<Rightarrow> real" where
  "val (Fin x) = x"
| "val _ = 0"

fun fneg :: "float64 \<Rightarrow> float64" where
  "fneg (Fin x) = (if x = 0 then NegZero else Fin (- x))"
| "fneg NegZero = Fin 0"
| "fneg PInf = NInf"
| "fneg NInf = PInf"
| "fneg NaN = NaN"

definition fadd :: "float64 \<Rightarrow> float64 \<Rightarrow> float64" where
  "fadd a b =
     (if a = NaN \<or> b = NaN then NaN
      else if a = PInf then (if b = NInf then NaN else PInf)
      else if a = NInf then (if b = PInf then NaN else NInf)
      else if b = PInf then PInf
      else if b = NInf then NInf
      else if val a + val b = 0 then (if a = NegZero \<and> b = NegZero then NegZero else Fin 0)
      else round64 (val a + val b))"

definition fsub :: "float64 \<Rightarrow> float64 \<Rightarrow> float64" where
  "fsub a b = fadd a (fneg b)"

definition fmul :: "float64 \<Rightarrow> float64 \<Rightarrow> float64" where
  "fmul a b =
     (if a = NaN \<or> b = NaN then NaN
      else if is_inf a \<or> is_inf b then
        (if is_zero a \<or> is_zero b then NaN else signed_inf (is_neg a \<noteq> is_neg b))
      else if is_zero a \<or> is_zero b then signed_zero (is_neg a \<noteq> is_neg b)
      else round64 (val a * val b))"

definition fdiv :: "float64 \<Rightarrow> float64 \<Rightarrow> float64" where
  "fdiv a b =
     (if a = NaN \<or> b = NaN then NaN
      else if is_inf a then (if is_inf b then NaN else signed_inf (is_neg a \<noteq> is_neg b))
      else if is_inf b then signed_zero (is_neg a \<noteq> is_neg b)
      else if is_zero b then (if is_zero a then NaN else signed_inf (is_neg a \<noteq> is_neg b))
      else if is_zero a then signed_zero (is_neg a \<noteq> is_neg b)
      else round64 (val a / val b))"

text \<open>The comparison \<open>a >= b\<close>: false when an operand is NaN.\<close>

definition fge :: "float64 \<Rightarrow> float64 \<Rightarrow> bool" where
  "fge a b =
     (if a = NaN \<or> b = NaN then False
      else if a = PInf \<or> b = NInf then True
      else if a = NInf \<or> b = PInf then False
      else val b \<le> val a)"

subsection \<open>Severity\<close>

definition exceedPercentage :: "real \<Rightarrow> real \<Rightarrow> float64" where
  "exceedPercentage v threshold =
     fmul (fdiv (fsub (Fin v) (Fin threshold)) (Fin threshold)) (Fin 100)"

definition calculateSeverity :: "real \<Rightarrow> real \<Rightarrow> AlertSeverity" where
  "calculateSeverity v threshold =
     (if fge (exceedPercentage v threshold) (Fin 50) then SeverityCritical
      else if fge (exceedPercentage v threshold) (Fin 25) then SeverityHigh
      else if fge (exceedPercentage v threshold) (Fin 10) then SeverityMedium
      else SeverityLow)"

subsection \<open>The evaluation cycle\<close>

definition resolveActiveAlerts :: "MetricType \<Rightarrow> World \<Rightarrow> World" where
  "resolveActiveAlerts metricType w =
     (let now = clock w;
          (result, w1) = update_resolved (active_of metricType) now w in
      case fst result of
        Some e \<Rightarrow> log_Printf (LogFailedResolve metricType e) w1
      | None \<Rightarrow>
          if snd result > 0 then log_Printf (LogResolved (snd result) metricType) w1
          else w1)"

text \<open>The \<open>switch threshold.Type\<close>: no value stands for \<open>continue\<close>.\<close>

definition currentValue_of :: "SystemMetrics \<Rightarrow> MetricType \<Rightarrow> real option" where
  "currentValue_of currentMetrics t =
     (if t = CPUUsage then Some (SystemMetrics.CPUUsage currentMetrics)
      else if t = MemoryUsage then Some (SystemMetrics.MemoryUsage currentMetrics)
      else None)"

definition new_alert :: "SystemMetrics \<Rightarrow> MetricThreshold \<Rightarrow> real \<Rightarrow> Alert" where
  "new_alert currentMetrics threshold currentValue =
     \<lparr>Alert.ID = 0,
      Alert.Type = MetricThreshold.Type threshold,
      Message = generateAlertMessage (MetricThreshold.Type threshold) currentValue
                  (MetricThreshold.Threshold threshold),
      Alert.Value = currentValue,
      Alert.Threshold = MetricThreshold.Threshold threshold,
      Severity = calculateSeverity currentValue (MetricThreshold.Threshold threshold),
      Status = AlertActive,
      TriggeredAt = SystemMetrics.Timestamp currentMetrics,
      ResolvedAt = None,
      Alert.CreatedAt = 0,
      Alert.UpdatedAt = 0\<rparr>"

text \<open>The body of the loop over the enabled thresholds.\<close>

definition check_threshold :: "SystemMetrics \<Rightarrow> MetricThreshold \<Rightarrow> World \<Rightarrow> World" where
  "check_threshold currentMetrics threshold w =
     (case currentValue_of currentMetrics (MetricThreshold.Type threshold) of
        None \<Rightarrow> w
      | Some currentValue \<Rightarrow>
          if currentValue > MetricThreshold.Threshold threshold then
            (case first_active_alert (MetricThreshold.Type threshold) w of
               (Inl ErrRecordNotFound, w1) \<Rightarrow>
                 (case create_alert (new_alert currentMetrics threshold currentValue) w1 of
                    (Some e, w2) \<Rightarrow> log_Printf (LogFailedCreateAlert e) w2
                  | (None, w2) \<Rightarrow>
                      log_Printf (LogAlertCreated (MetricThreshold.Type threshold) currentValue
                                    (MetricThreshold.Threshold threshold)) w2)
             | (_, w1) \<Rightarrow> w1)
          else resolveActiveAlerts (MetricThreshold.Type threshold) w)"

fun check_loop :: "SystemMetrics \<Rightarrow> MetricThreshold list \<Rightarrow> World \<Rightarrow> World" where
  "check_loop currentMetrics [] w = w"
| "check_loop currentMetrics (threshold # thresholds) w =
     check_loop currentMetrics thresholds (check_threshold currentMetrics threshold w)"

definition CheckThresholds :: "SystemMetrics \<Rightarrow> World \<Rightarrow> alert_error option \<times> World" where
  "CheckThresholds currentMetrics w =
     (case find_enabled_thresholds w of
        (Inl e, w1) \<Rightarrow> (Some (FailedToGetThresholds e), w1)
      | (Inr thresholds, w1) \<Rightarrow> (None, check_loop currentMetrics thresholds w1))"

subsection \<open>Manual resolution by id\<close>

definition ResolveAlert :: "nat \<Rightarrow> World \<Rightarrow> alert_error option \<times> World" where
  "ResolveAlert alertID w =
     (let now = clock w;
          (result, w1) =
            update_resolved (\<lambda>a. Alert.ID a = alertID \<and> Status a = AlertActive) now w in
      case fst result of
        Some e \<Rightarrow> (Some (FailedToResolveAlert e), w1)
      | None \<Rightarrow>
          if snd result = 0 then (Some AlertNotFoundOrAlreadyResolved, w1)
          else (None, w1))"

section \<open>The periodic alert monitoring of the main program\<close>

text \<open>\<open>Collector.GetCurrentMetrics\<close>: a fresh sample of both sources, nothing stored.\<close>

definition GetCurrentMetrics :: "World \<Rightarrow> sample_error + SystemMetrics" where
  "GetCurrentMetrics w =
     (case cpu_Percent w of
        None \<Rightarrow> Inl FailedToGetCPUUsage
      | Some cpuPercent \<Rightarrow>
          (case mem_UsedPercent w of
             None \<Rightarrow> Inl FailedToGetMemoryUsage
           | Some usedPercent \<Rightarrow>
               Inr \<lparr>SystemMetrics.CPUUsage = (case cpuPercent of [] \<Rightarrow> 0 | c # _ \<Rightarrow> c),
                    SystemMetrics.MemoryUsage = usedPercent,
                    SystemMetrics.Timestamp = clock w\<rparr>))"

text \<open>
  What the environment has done when a tick fires: the clock, the outcome of the coming
  database calls, the configured thresholds and the answers of the sample source.
\<close>

record Env =
  env_clock :: Time
  env_faults :: "bool list"
  env_thresholds :: "MetricThreshold list"
  env_cpu :: "real list option"
  env_mem :: "real option"

definition install :: "Env \<Rightarrow> World \<Rightarrow> World" where
  "install e w =
     w\<lparr>clock := env_clock e, faults := env_faults e, metric_thresholds := env_thresholds e,
       cpu_Percent := env_cpu e, mem_UsedPercent := env_mem e\<rparr>"

datatype Event = CtxDone | StopCh | Tick Env

text \<open>
  The goroutine of \<open>main\<close>: on every tick it samples and evaluates the thresholds, until
  the context is cancelled. It does not listen to the collector's stop channel.
\<close>

definition on_alert_tick :: "World \<Rightarrow> World" where
  "on_alert_tick w =
     (case GetCurrentMetrics w of
        Inl e \<Rightarrow> log_Printf (LogFailedCurrentMetrics e) w
      | Inr currentMetrics \<Rightarrow>
          (case CheckThresholds currentMetrics w of
             (Some e, w1) \<Rightarrow> log_Printf (LogFailedCheck e) w1
           | (None, w1) \<Rightarrow> w1))"

fun alert_monitoring :: "Event list \<Rightarrow> World \<Rightarrow> World" where
  "alert_monitoring [] w = w"
| "alert_monitoring (CtxDone # es) w = w"
| "alert_monitoring (StopCh # es) w = alert_monitoring es w"
| "alert_monitoring (Tick e # es) w = alert_monitoring es (on_alert_tick (install e w))"

section \<open>The metrics collector\<close>

text \<open>\<open>db.Create(&metric)\<close> on the metrics table.\<close>

definition create_metric :: "Metric \<Rightarrow> World \<Rightarrow> gorm_error option \<times> World" where
  "create_metric x w =
     (if failing w then (Some ErrDatabase, db_call w)
      else (None,
            (db_call w)\<lparr>metrics := metrics w @
                   [x\<lparr>Metric.ID := Suc (metrics_seq w), Metric.CreatedAt := clock w\<rparr>],
               metrics_seq := Suc (metrics_seq w)\<rparr>))"

text \<open>
  How a call of \<open>collectMetrics\<close> ends: it returns \<open>nil\<close>, it returns an error, or the
  index expression \<open>cpuPercent[0]\<close> of its last statement panics on an empty slice.
\<close>

datatype collect_result = ReturnedNil | ReturnedError sample_error | IndexPanic

definition collectMetrics :: "World \<Rightarrow> collect_result \<times> World" where
  "collectMetrics w =
     (let now = clock w in
      case cpu_Percent w of
        None \<Rightarrow> (ReturnedError FailedToGetCPUUsage, w)
      | Some cpuPercent \<Rightarrow>
          (let w1 =
             (case cpuPercent of
                [] \<Rightarrow> w
              | c # _ \<Rightarrow>
                  (case create_metric
                          \<lparr>Metric.ID = 0, Metric.Type = CPUUsage, Metric.Value = c,
                           Unit = ''%'', Metric.Timestamp = now, Metric.CreatedAt = 0\<rparr> w of
                     (Some e, w') \<Rightarrow> log_Printf (LogFailedSaveCPU e) w'
                   | (None, w') \<Rightarrow> w'))
           in
           case mem_UsedPercent w1 of
             None \<Rightarrow> (ReturnedError FailedToGetMemoryUsage, w1)
           | Some usedPercent \<Rightarrow>
               (let w2 =
                  (case create_metric
                          \<lparr>Metric.ID = 0, Metric.Type = MemoryUsage, Metric.Value = usedPercent,
                           Unit = ''%'', Metric.Timestamp = now, Metric.CreatedAt = 0\<rparr> w1 of
                     (Some e, w') \<Rightarrow> log_Printf (LogFailedSaveMemory e) w'
                   | (None, w') \<Rightarrow> w')
                in
                case cpuPercent of
                  [] \<Rightarrow> (IndexPanic, w2)
                | c # _ \<Rightarrow> (ReturnedNil, log_Printf (LogCollected c usedPercent) w2))))"

text \<open>
  \<open>Collector.Start\<close>: the loop over the events the \<open>select\<close> receives. The loop is still
  running when the events are used up; it has returned after a cancelled context or a
  closed stop channel; a panic of a cycle ends it.
\<close>

datatype run_state = Running | Returned | Panicked

fun Start_loop :: "Event list \<Rightarrow> World \<Rightarrow> run_state \<times> World" where
  "Start_loop [] w = (Running, w)"
| "Start_loop (CtxDone # es) w = (Returned, log_Printf LogStoppedByContext w)"
| "Start_loop (StopCh # es) w = (Returned, log_Printf LogStopped w)"
| "Start_loop (Tick e # es) w =
     (case collectMetrics (install e w) of
        (ReturnedError err, w1) \<Rightarrow> Start_loop es (log_Printf (LogErrorCollecting err) w1)
      | (ReturnedNil, w1) \<Rightarrow> Start_loop es w1
      | (IndexPanic, w1) \<Rightarrow> (Panicked, w1))"

definition Start :: "Event list \<Rightarrow> World \<Rightarrow> run_state \<times> World" where
  "Start es w = Start_loop es (log_Printf LogStartingCollection w)"

section \<open>The log analyzer\<close>

subsection \<open>Strings\<close>

text \<open>
  The UTF-8 encodings of the runes that \<open>unicode.IsSpace\<close> accepts: U+0009 to U+000D,
  U+0020, U+0085, U+00A0, U+1680, U+2000 to U+200A, U+2028, U+2029, U+202F, U+205F and
  U+3000.
\<close>

definition space_runes :: "string list" where
  "space_runes =
     [[CHR 0x09], [CHR 0x0A], [CHR 0x0B], [CHR 0x0C], [CHR 0x0D], [CHR 0x20],
      [CHR 0xC2, CHR 0x85], [CHR 0xC2, CHR 0xA0], [CHR 0xE1, CHR 0x9A, CHR 0x80],
      [CHR 0xE2, CHR 0x80, CHR 0x80], [CHR 0xE2, CHR 0x80, CHR 0x81],
      [CHR 0xE2, CHR 0x80, CHR 0x82], [CHR 0xE2, CHR 0x80, CHR 0x83],
      [CHR 0xE2, CHR 0x80, CHR 0x84], [CHR 0xE2, CHR 0x80, CHR 0x85],
      [CHR 0xE2, CHR 0x80, CHR 0x86], [CHR 0xE2, CHR 0x80, CHR 0x87],
      [CHR 0xE2, CHR 0x80, CHR 0x88], [CHR 0xE2, CHR 0x80, CHR 0x89],
      [CHR 0xE2, CHR 0x80, CHR 0x8A], [CHR 0xE2, CHR 0x80, CHR 0xA8],
      [CHR 0xE2, CHR 0x80, CHR 0xA9], [CHR 0xE2, CHR 0x80, CHR 0xAF],
      [CHR 0xE2, CHR 0x81, CHR 0x9F], [CHR 0xE3, CHR 0x80, CHR 0x80]]"

text \<open>Removes the runes of the list from the front, as long as one of them is there.\<close>

function strip_front :: "string list \<Rightarrow> string \<Rightarrow> string" where
  "strip_front rs s =
     (case find (\<lambda>r. r \<noteq> [] \<and> prefix r s) rs of
        None \<Rightarrow> s
      | Some r \<Rightarrow> strip_front rs (drop (length r) s))"
  by pat_completeness auto
termination
proof (relation "measure (\<lambda>(rs, s). length s)")
  show "wf (measure (\<lambda>(rs, s). length s))" by simp
next
  fix rs :: "string list" and s r :: string
  assume "find (\<lambda>r. r \<noteq> [] \<and> prefix r s) rs = Some r"
  then have "r \<noteq> []" "prefix r s"
    by (auto simp: find_Some_iff)
  then have "s \<noteq> []" by auto
  with \<open>r \<noteq> []\<close> show "((rs, drop (length r) s), (rs, s)) \<in> measure (\<lambda>(rs, s). length s)"
    by simp
qed

declare strip_front.simps [simp del]

text \<open>\<open>strings.TrimSpace\<close>\<close>

definition TrimSpace :: "string \<Rightarrow> string" where
  "TrimSpace s = rev (strip_front (map rev space_runes) (rev (strip_front space_runes s)))"

text \<open>\<open>strings.ToUpper\<close>, on the ASCII letters the pattern can match.\<close>

definition upper :: "char \<Rightarrow> char" where
  "upper c =
     (case map_of (zip ''abcdefghijklmnopqrstuvwxyz'' ''ABCDEFGHIJKLMNOPQRSTUVWXYZ'') c of
        None \<Rightarrow> c
      | Some u \<Rightarrow> u)"

definition ToUpper :: "string \<Rightarrow> string" where
  "ToUpper s = map upper s"

text \<open>\<open>strings.SplitN(s, sep, 2)\<close> for a separator of one byte.\<close>

definition SplitN_2 :: "string \<Rightarrow> char \<Rightarrow> string list" where
  "SplitN_2 s sep =
     (if sep \<in> set s
      then [takeWhile (\<lambda>c. c \<noteq> sep) s, tl (dropWhile (\<lambda>c. c \<noteq> sep) s)]
      else [s])"

subsection \<open>The pattern\<close>

text \<open>
  \<open>(?i)\[(INFO|WARN|ERROR|DEBUG)\]|^(INFO|WARN|ERROR|DEBUG):\<close>. The letters of the four
  words fold to their two ASCII cases only, so a byte matches a letter of the pattern when
  its upper case is that letter.
\<close>

definition level_words :: "string list" where
  "level_words = [''INFO'', ''WARN'', ''ERROR'', ''DEBUG'']"

text \<open>The text that the group \<open>(INFO|WARN|ERROR|DEBUG)\<close> matches at the front of a string.\<close>

definition match_level :: "string \<Rightarrow> string option" where
  "match_level s =
     (case filter (\<lambda>l. map upper (take (length l) s) = l) level_words of
        [] \<Rightarrow> None
      | l # _ \<Rightarrow> Some (take (length l) s))"

text \<open>The first alternative, \<open>\[(...)\]\<close>, at the front of a string.\<close>

definition bracket_at :: "string \<Rightarrow> string option" where
  "bracket_at s =
     (case s of
        [] \<Rightarrow> None
      | c # r \<Rightarrow>
          if c = CHR ''['' then
            (case match_level r of
               None \<Rightarrow> None
             | Some g \<Rightarrow> if take 1 (drop (length g) r) = '']'' then Some g else None)
          else None)"

text \<open>The second alternative, \<open>^(...):\<close>, which the anchor ties to the front of the line.\<close>

definition prefix_at :: "string \<Rightarrow> string option" where
  "prefix_at s =
     (case match_level s of
        None \<Rightarrow> None
      | Some g \<Rightarrow> if take 1 (drop (length g) s) = '':'' then Some g else None)"

text \<open>The leftmost place where the first alternative matches.\<close>

fun find_bracket :: "string \<Rightarrow> string option" where
  "find_bracket [] = None"
| "find_bracket (c # cs) =
     (case bracket_at (c # cs) of Some g \<Rightarrow> Some g | None \<Rightarrow> find_bracket cs)"

text \<open>
  \<open>logPattern.FindStringSubmatch\<close>: the leftmost match, the first alternative before the
  second where both start; the whole match and the two groups, an unmatched group empty;
  no elements when nothing matches.
\<close>

definition FindStringSubmatch :: "string \<Rightarrow> string list" where
  "FindStringSubmatch line =
     (case bracket_at line of
        Some g \<Rightarrow> [''['' @ g @ '']'', g, []]
      | None \<Rightarrow>
          (case prefix_at line of
             Some g \<Rightarrow> [g @ '':'', [], g]
           | None \<Rightarrow>
               (case find_bracket (drop 1 line) of
                  Some g \<Rightarrow> [''['' @ g @ '']'', g, []]
                | None \<Rightarrow> [])))"

subsection \<open>Entries and statistics\<close>

type_synonym LogLevel = string

definition INFO :: LogLevel where
  "INFO = ''INFO''"

definition WARN :: LogLevel where
  "WARN = ''WARN''"

definition ERROR :: LogLevel where
  "ERROR = ''ERROR''"

definition DEBUG :: LogLevel where
  "DEBUG = ''DEBUG''"

record LogEntry =
  Level :: LogLevel
  Message :: string
  Time :: string

record ErrorFrequency =
  Message :: string
  Count :: nat

text \<open>A Go map is the list of its entries, in the order of their insertion.\<close>

record LogStats =
  LevelCounts :: "(LogLevel \<times> nat) list"
  TopErrors :: "ErrorFrequency list"
  TotalEntries :: nat

text \<open>\<open>m[k]++\<close>\<close>

fun incr :: "'k \<Rightarrow> ('k \<times> nat) list \<Rightarrow> ('k \<times> nat) list" where
  "incr k [] = [(k, 1)]"
| "incr k ((k', n) # m) = (if k = k' then (k', Suc n) # m else (k', n) # incr k m)"

definition ParseLine :: "string \<Rightarrow> LogEntry option" where
  "ParseLine line =
     (let matches = FindStringSubmatch line in
      if length matches = 0 then None
      else
        (let (level, message) =
               (if matches ! 1 \<noteq> [] then
                  (ToUpper (matches ! 1),
                   (let parts = SplitN_2 line (CHR '']'') in
                    if length parts > 1 then TrimSpace (parts ! 1) else []))
                else if matches ! 2 \<noteq> [] then
                  (ToUpper (matches ! 2),
                   (let parts = SplitN_2 line (CHR '':'') in
                    if length parts > 1 then TrimSpace (parts ! 1) else []))
                else ([], []))
         in Some \<lparr>Level = level,
                  LogEntry.Message = (if message = [] then line else message),
                  Time = []\<rparr>))"

subsection \<open>Ranking\<close>

text \<open>
  Two things the Go runtime decides: the order in which \<open>range\<close> visits the entries of a
  map, and the order in which \<open>sort.Slice\<close>, which is not stable, leaves elements that
  compare equal.
\<close>

record Runtime =
  map_range :: "(string \<times> nat) list \<Rightarrow> (string \<times> nat) list"
  sort_Slice :: "(ErrorFrequency \<Rightarrow> ErrorFrequency \<Rightarrow> bool) \<Rightarrow> ErrorFrequency list \<Rightarrow> ErrorFrequency list"

definition more_frequent :: "ErrorFrequency \<Rightarrow> ErrorFrequency \<Rightarrow> bool" where
  "more_frequent a b = (Count a > Count b)"

definition getTopErrors :: "Runtime \<Rightarrow> (string \<times> nat) list \<Rightarrow> nat \<Rightarrow> ErrorFrequency list" where
  "getTopErrors rt errorMessages topN =
     (let errors = map (\<lambda>(msg, count). \<lparr>ErrorFrequency.Message = msg, Count = count\<rparr>)
                     (map_range rt errorMessages);
          errors = sort_Slice rt more_frequent errors
      in if length errors > topN then take topN errors else errors)"

subsection \<open>Reading the file\<close>

text \<open>
  The file system: a path that cannot be opened has no file; a file delivers its bytes
  and then either the end of the file or a read error.
\<close>

record File =
  bytes :: string
  read_error :: bool

type_synonym FileSystem = "string \<Rightarrow> File option"

text \<open>
  \<open>bufio.Scanner\<close> with \<open>ScanLines\<close>. The lines between the newlines, a last line without
  newline included when it is not empty. The buffer of the scanner grows to
  \<open>MaxScanTokenSize\<close> bytes: a line that long, or longer, stops the scan with
  \<open>ErrTooLong\<close>. A token is its line without the trailing carriage return.
\<close>

definition MaxScanTokenSize :: nat where
  "MaxScanTokenSize = 64 * 1024"

fun split_lines :: "string \<Rightarrow> string \<Rightarrow> string list" where
  "split_lines cur [] = (if cur = [] then [] else [rev cur])"
| "split_lines cur (c # cs) =
     (if c = CHR 0x0A then rev cur # split_lines [] cs else split_lines (c # cur) cs)"

definition dropCR :: "string \<Rightarrow> string" where
  "dropCR data = (if data \<noteq> [] \<and> last data = CHR 0x0D then butlast data else data)"

fun scan_tokens :: "string list \<Rightarrow> string list \<times> bool" where
  "scan_tokens [] = ([], False)"
| "scan_tokens (l # ls) =
     (if length l \<ge> MaxScanTokenSize then ([], True)
      else (let (ts, tooLong) = scan_tokens ls in (dropCR l # ts, tooLong)))"

datatype log_error = FailedToOpenLogFile | ErrorReadingLogFile

text \<open>The body of the loop \<open>for scanner.Scan()\<close>, on the token \<open>scanner.Text()\<close>.\<close>

definition scan_step ::
  "string \<Rightarrow> LogStats \<times> (string \<times> nat) list \<Rightarrow> LogStats \<times> (string \<times> nat) list" where
  "scan_step text st =
     (let (stats, errorMessages) = st;
          line = TrimSpace text in
      if line = [] then st
      else
        (case ParseLine line of
           None \<Rightarrow> st
         | Some entry \<Rightarrow>
             (stats\<lparr>LevelCounts := incr (Level entry) (LevelCounts stats),
                    TotalEntries := Suc (TotalEntries stats)\<rparr>,
              if Level entry = ERROR then incr (LogEntry.Message entry) errorMessages
              else errorMessages)))"

fun scan_loop ::
  "string list \<Rightarrow> LogStats \<times> (string \<times> nat) list \<Rightarrow> LogStats \<times> (string \<times> nat) list" where
  "scan_loop [] st = st"
| "scan_loop (text # texts) st = scan_loop texts (scan_step text st)"

definition ParseLogFile :: "Runtime \<Rightarrow> FileSystem \<Rightarrow> string \<Rightarrow> log_error + LogStats" where
  "ParseLogFile rt fs filePath =
     (case fs filePath of
        None \<Rightarrow> Inl FailedToOpenLogFile
      | Some file \<Rightarrow>
          (let (texts, tooLong) = scan_tokens (split_lines [] (bytes file));
               (stats, errorMessages) =
                 scan_loop texts (\<lparr>LevelCounts = [], TopErrors = [], TotalEntries = 0\<rparr>, [])
           in if tooLong \<or> read_error file then Inl ErrorReadingLogFile
              else Inr (stats\<lparr>TopErrors := getTopErrors rt errorMessages 5\<rparr>)))"

section \<open>Notions the statements use\<close>

definition no_faults :: "World \<Rightarrow> bool" where
  "no_faults w = (True \<notin> set (faults w))"

definition created_row :: "SystemMetrics \<Rightarrow> MetricThreshold \<Rightarrow> real \<Rightarrow> World \<Rightarrow> Alert" where
  "created_row m th v w =
     (new_alert m th v)\<lparr>Alert.ID := Suc (alerts_seq w), Alert.CreatedAt := clock w,
                          Alert.UpdatedAt := clock w\<rparr>"

definition resolved_rows :: "MetricType \<Rightarrow> World \<Rightarrow> Alert list" where
  "resolved_rows t w =
     map (\<lambda>a. if active_of t a then resolve_row (clock w) (clock w) a else a) (alerts w)"

definition at_most_one_active :: "World \<Rightarrow> bool" where
  "at_most_one_active w = (\<forall>t. length (filter (active_of t) (alerts w)) \<le> 1)"

definition world0 :: World where
  "world0 = \<lparr>metric_thresholds = [], alerts = [], alerts_seq = 0, metrics = [], metrics_seq = 0,
              logs = [], faults = [], clock = 0, cpu_Percent = None, mem_UsedPercent = None\<rparr>"

text \<open>The rows \<open>Collector.InitializeThresholds\<close> inserts into an empty table.\<close>

definition cpu_threshold :: MetricThreshold where
  "cpu_threshold =
     \<lparr>MetricThreshold.ID = 1, MetricThreshold.Type = CPUUsage, MetricThreshold.Threshold = 80,
      Enabled = True, MetricThreshold.CreatedAt = 0, MetricThreshold.UpdatedAt = 0\<rparr>"

definition memory_threshold :: MetricThreshold where
  "memory_threshold =
     \<lparr>MetricThreshold.ID = 2, MetricThreshold.Type = MemoryUsage, MetricThreshold.Threshold = 75,
      Enabled = True, MetricThreshold.CreatedAt = 0, MetricThreshold.UpdatedAt = 0\<rparr>"

definition default_thresholds :: "MetricThreshold list" where
  "default_thresholds = [cpu_threshold, memory_threshold]"

definition sampled :: "Time \<Rightarrow> real \<Rightarrow> real \<Rightarrow> Env" where
  "sampled now c m =
     \<lparr>env_clock = now, env_faults = [], env_thresholds = default_thresholds,
      env_cpu = Some [c], env_mem = Some m\<rparr>"

text \<open>Worlds and readings the statements are instantiated at.\<close>

definition reading :: "Time \<Rightarrow> real \<Rightarrow> real \<Rightarrow> SystemMetrics" where
  "reading now c m =
     \<lparr>SystemMetrics.CPUUsage = c, SystemMetrics.MemoryUsage = m, SystemMetrics.Timestamp = now\<rparr>"

definition cpu_alert :: Alert where
  "cpu_alert =
     \<lparr>Alert.ID = 1, Alert.Type = CPUUsage, Alert.Message = generateAlertMessage CPUUsage 90 80,
      Alert.Value = 90, Alert.Threshold = 80, Severity = SeverityMedium, Status = AlertActive,
      TriggeredAt = 1, ResolvedAt = None, Alert.CreatedAt = 1, Alert.UpdatedAt = 1\<rparr>"

definition ready :: World where
  "ready = install (sampled 1 90 50) world0"

definition one_active :: World where
  "one_active = (install (sampled 2 70 50) world0)\<lparr>alerts := [cpu_alert], alerts_seq := 1\<rparr>"

definition cpu_disabled :: World where
  "cpu_disabled =
     one_active\<lparr>metric_thresholds := [cpu_threshold\<lparr>Enabled := False\<rparr>, memory_threshold]\<rparr>"

text \<open>
  The world in which the loop of a cycle comes to the threshold \<open>th\<close>: the thresholds are
  loaded and the enabled ones before \<open>th\<close> are done. The upcoming call of the store is the
  first that the loop makes for \<open>th\<close>.
\<close>

definition arrival :: "SystemMetrics \<Rightarrow> MetricThreshold \<Rightarrow> World \<Rightarrow> World" where
  "arrival m th w =
     check_loop m
       (takeWhile (\<lambda>x. MetricThreshold.Type x \<noteq> MetricThreshold.Type th)
          (filter Enabled (metric_thresholds w)))
       (db_call w)"

text \<open>Worlds in which the second call of the store fails.\<close>

definition lookup_down :: World where
  "lookup_down = ready\<lparr>faults := [False, True]\<rparr>"

definition update_down :: World where
  "update_down = one_active\<lparr>faults := [False, True]\<rparr>"

text \<open>Rows, event lists and worlds of the sampling cycle.\<close>

definition metric_row :: "nat \<Rightarrow> MetricType \<Rightarrow> real \<Rightarrow> Time \<Rightarrow> Metric" where
  "metric_row i t v now =
     \<lparr>Metric.ID = i, Metric.Type = t, Metric.Value = v, Unit = ''%'', Metric.Timestamp = now,
      Metric.CreatedAt = now\<rparr>"

text \<open>No tick of the list finds an empty CPU sample.\<close>

fun no_empty_sample :: "Event list \<Rightarrow> bool" where
  "no_empty_sample [] = True"
| "no_empty_sample (Tick e # es) = (env_cpu e \<noteq> Some [] \<and> no_empty_sample es)"
| "no_empty_sample (_ # es) = no_empty_sample es"

fun only_ticks :: "Event list \<Rightarrow> bool" where
  "only_ticks [] = True"
| "only_ticks (Tick e # es) = only_ticks es"
| "only_ticks (_ # es) = False"

definition both_up :: World where
  "both_up = world0\<lparr>clock := 5, cpu_Percent := Some [42], mem_UsedPercent := Some 61\<rparr>"

definition mem_down :: World where
  "mem_down = world0\<lparr>clock := 5, cpu_Percent := Some [42], mem_UsedPercent := None\<rparr>"

definition cpu_down :: Env where
  "cpu_down = (sampled 6 0 0)\<lparr>env_cpu := None\<rparr>"

text \<open>Notions and examples of the log analyzer.\<close>

definition is_level_tag :: "string \<Rightarrow> bool" where
  "is_level_tag g = (map upper g \<in> set level_words)"

definition has_bracket_tag :: "string \<Rightarrow> bool" where
  "has_bracket_tag line =
     (\<exists>pre g post. line = pre @ ''['' @ g @ '']'' @ post \<and> is_level_tag g)"

definition has_prefix_tag :: "string \<Rightarrow> bool" where
  "has_prefix_tag line = (\<exists>g post. line = g @ '':'' @ post \<and> is_level_tag g)"

definition after_first :: "char \<Rightarrow> string \<Rightarrow> string" where
  "after_first sep line = tl (dropWhile (\<lambda>c. c \<noteq> sep) line)"

definition message_after :: "char \<Rightarrow> string \<Rightarrow> string" where
  "message_after sep line =
     (if TrimSpace (after_first sep line) = [] then line else TrimSpace (after_first sep line))"

definition runtime_ok :: "Runtime \<Rightarrow> bool" where
  "runtime_ok rt =
     ((\<forall>m. mset (map_range rt m) = mset m) \<and>
      (\<forall>xs. mset (sort_Slice rt more_frequent xs) = mset xs \<and>
            sorted_wrt (\<lambda>a b. \<not> more_frequent b a) (sort_Slice rt more_frequent xs)))"

text \<open>The entry a token of the scanner stands for, if any.\<close>

definition entry_of :: "string \<Rightarrow> LogEntry option" where
  "entry_of text = (if TrimSpace text = [] then None else ParseLine (TrimSpace text))"

definition error_messages :: "string list \<Rightarrow> string list" where
  "error_messages texts =
     map LogEntry.Message (filter (\<lambda>e. Level e = ERROR) (List.map_filter entry_of texts))"

definition file_lines :: "File \<Rightarrow> string list" where
  "file_lines file = map dropCR (split_lines [] (bytes file))"

text \<open>A map that counts the members of a multiset.\<close>

definition counts :: "('k \<times> nat) list \<Rightarrow> 'k multiset \<Rightarrow> bool" where
  "counts m M =
     (distinct (map fst m) \<and>
      (\<forall>k. map_of m k = (if k \<in># M then Some (count M k) else None)))"

fun insert_by :: "('a \<Rightarrow> 'a \<Rightarrow> bool) \<Rightarrow> 'a \<Rightarrow> 'a list \<Rightarrow> 'a list" where
  "insert_by lt x [] = [x]"
| "insert_by lt x (y # ys) = (if lt y x then y # insert_by lt x ys else x # y # ys)"

definition insertion_sort :: "('a \<Rightarrow> 'a \<Rightarrow> bool) \<Rightarrow> 'a list \<Rightarrow> 'a list" where
  "insertion_sort lt xs = foldr (insert_by lt) xs []"

definition a_runtime :: Runtime where
  "a_runtime = \<lparr>map_range = (\<lambda>m. m), sort_Slice = insertion_sort\<rparr>"

definition frequency :: "string \<times> nat \<Rightarrow> ErrorFrequency" where
  "frequency = (\<lambda>(msg, count). \<lparr>ErrorFrequency.Message = msg, Count = count\<rparr>)"

definition lines_bytes :: "string list \<Rightarrow> string" where
  "lines_bytes ls = concat (map (\<lambda>l. l @ [CHR 0x0A]) ls)"

definition example_file :: File where
  "example_file =
     \<lparr>bytes = lines_bytes [''[INFO] a'', ''[ERROR] b'', ''[ERROR] b'', ''garbage line'', ''WARN: c''],
      read_error = False\<rparr>"

definition example_stats :: LogStats where
  "example_stats =
     \<lparr>LevelCounts = [(INFO, 1), (ERROR, 2), (WARN, 1)],
      TopErrors = [\<lparr>ErrorFrequency.Message = ''b'', Count = 2\<rparr>],
      TotalEntries = 4\<rparr>"

definition noisy_file :: File where
  "noisy_file =
     \<lparr>bytes = lines_bytes [''[ERROR] a'', ''[ERROR] b'', ''[ERROR] a'', ''ERROR: c'', ''[error] d'',
        ''[ERROR] e'', ''  [ERROR] f  '', ''[ERROR] b'', ''[ERROR] a'', ''[INFO] a''],
      read_error = False\<rparr>"

definition noisy_stats :: LogStats where
  "noisy_stats =
     \<lparr>LevelCounts = [(ERROR, 9), (INFO, 1)],
      TopErrors =
        [\<lparr>ErrorFrequency.Message = ''a'', Count = 3\<rparr>,
         \<lparr>ErrorFrequency.Message = ''b'', Count = 2\<rparr>,
         \<lparr>ErrorFrequency.Message = ''c'', Count = 1\<rparr>,
         \<lparr>ErrorFrequency.Message = ''d'', Count = 1\<rparr>,
         \<lparr>ErrorFrequency.Message = ''e'', Count = 1\<rparr>],
      TotalEntries = 10\<rparr>"

definition long_file :: File where
  "long_file = \<lparr>bytes = replicate 65536 (CHR ''a''), read_error = False\<rparr>"

definition empty_stats :: LogStats where
  "empty_stats = \<lparr>LevelCounts = [], TopErrors = [], TotalEntries = 0\<rparr>"

definition quiet_file :: File where
  "quiet_file = \<lparr>bytes = lines_bytes [''garbage line'', '''', ''INFO no colon''], read_error = False\<rparr>"

text \<open>A real that is a \<open>float64\<close>: rounding leaves it as it is.\<close>

definition exact :: "real \<Rightarrow> bool" where
  "exact x = (round64 x = Fin x)"

lemmas run_defs =
  on_alert_tick_def install_def GetCurrentMetrics_def CheckThresholds_def
  find_enabled_thresholds_def failing_def db_call_def check_threshold_def currentValue_of_def
  CPUUsage_def MemoryUsage_def first_active_alert_def active_of_def create_alert_def
  new_alert_def log_Printf_def resolveActiveAlerts_def update_resolved_def resolve_row_def
  Let_def world0_def default_thresholds_def cpu_threshold_def memory_threshold_def
  sampled_def

lemmas example_defs = ready_def reading_def cpu_alert_def one_active_def cpu_disabled_def

lemmas parse_defs =
  ParseLine_def FindStringSubmatch_def bracket_at_def prefix_at_def match_level_def
  level_words_def upper_def ToUpper_def SplitN_2_def TrimSpace_def space_runes_def
  strip_front.simps Let_def INFO_def WARN_def ERROR_def DEBUG_def

lemmas float_defs =
  exceedPercentage_def fsub_def fadd_def fdiv_def fmul_def fge_def round64_def ilog2_def pow2_def
  round_even_def signed_zero_def signed_inf_def bit_length.simps Let_def

section \<open>Severity tiers\<close>

lemma round64_not_NaN [simp]: "round64 x \<noteq> NaN"
  by (simp add: round64_def Let_def signed_zero_def signed_inf_def)

lemma fsub_Fin_cases:
  "fsub (Fin v) (Fin t) = Fin 0 \<or> fsub (Fin v) (Fin t) = round64 (v - t)"
  by (auto simp add: fsub_def fadd_def)

lemma fsub_not_NaN [simp]: "fsub (Fin v) (Fin t) \<noteq> NaN"
  using fsub_Fin_cases [of v t] by (metis round64_not_NaN float64.distinct)

lemma fdiv_pos_not_NaN: "0 < t \<Longrightarrow> a \<noteq> NaN \<Longrightarrow> fdiv a (Fin t) \<noteq> NaN"
  by (simp add: fdiv_def signed_zero_def signed_inf_def)

lemma fmul_100_not_NaN: "a \<noteq> NaN \<Longrightarrow> fmul a (Fin 100) \<noteq> NaN"
  by (cases a) (simp_all add: fmul_def signed_zero_def signed_inf_def)

lemma exceedPercentage_not_NaN: "0 < t \<Longrightarrow> exceedPercentage v t \<noteq> NaN"
  unfolding exceedPercentage_def
  by (intro fmul_100_not_NaN fdiv_pos_not_NaN fsub_not_NaN)

lemma exceedPercentage_exact:
  assumes "0 < t" "exact (v - t)" "exact ((v - t) / t)" "exact ((v - t) / t * 100)"
  shows "exceedPercentage v t = Fin ((v - t) / t * 100)"
proof (cases "v = t")
  case True
  then show ?thesis
    using assms
    by (simp add: exceedPercentage_def fsub_def fadd_def fdiv_def fmul_def signed_zero_def)
next
  case False
  then have 1: "fsub (Fin v) (Fin t) = Fin (v - t)"
    using assms by (simp add: fsub_def fadd_def exact_def)
  have 2: "fdiv (Fin (v - t)) (Fin t) = Fin ((v - t) / t)"
    using assms False by (simp add: fdiv_def exact_def)
  have 3: "fmul (Fin ((v - t) / t)) (Fin 100) = Fin ((v - t) / t * 100)"
    using assms False by (simp add: fmul_def exact_def)
  show ?thesis by (simp add: exceedPercentage_def 1 2 3)
qed

lemma severity_of_Fin:
  assumes "exceedPercentage v t = Fin x"
  shows "(calculateSeverity v t = SeverityCritical \<longleftrightarrow> 50 \<le> x) \<and>
         (calculateSeverity v t = SeverityHigh \<longleftrightarrow> 25 \<le> x \<and> x < 50) \<and>
         (calculateSeverity v t = SeverityMedium \<longleftrightarrow> 10 \<le> x \<and> x < 25) \<and>
         (calculateSeverity v t = SeverityLow \<longleftrightarrow> x < 10)"
  using assms by (simp add: calculateSeverity_def fge_def)

lemma severity_examples:
  "calculateSeverity 100 80 = SeverityHigh" "calculateSeverity 120 80 = SeverityCritical"
  "calculateSeverity 88 80 = SeverityMedium" "calculateSeverity 84 80 = SeverityLow"
  by (simp_all add: calculateSeverity_def float_defs)

text \<open>
  C4, as amended. For every value and positive threshold the severity follows the
  percentage that \<open>float64\<close> arithmetic computes, with every operation of
  \<open>((value - threshold) / threshold) * 100\<close> rounded to the nearest \<open>float64\<close>, in tiers
  whose lower bounds are inclusive: a finite result of at least 50 is critical, from 25 up to
  50 is high, from 10 up to 25 is medium, below 10 is low; an overflow to the positive
  infinity is critical, the negative zero and the negative infinity are low, and the result is
  never NaN. Where no operation rounds, the result is the real percentage and the tiers are
  those of \<open>(value - threshold) / threshold * 100\<close>. So (100, 80) is high, (120, 80) is
  critical, (88, 80) is medium and (84, 80) is low.
\<close>

theorem calculateSeverity_tiers:
  "0 < threshold \<Longrightarrow>
     (case exceedPercentage v threshold of
        Fin x \<Rightarrow>
          (calculateSeverity v threshold = SeverityCritical \<longleftrightarrow> 50 \<le> x) \<and>
          (calculateSeverity v threshold = SeverityHigh \<longleftrightarrow> 25 \<le> x \<and> x < 50) \<and>
          (calculateSeverity v threshold = SeverityMedium \<longleftrightarrow> 10 \<le> x \<and> x < 25) \<and>
          (calculateSeverity v threshold = SeverityLow \<longleftrightarrow> x < 10)
      | PInf \<Rightarrow> calculateSeverity v threshold = SeverityCritical
      | NegZero \<Rightarrow> calculateSeverity v threshold = SeverityLow
      | NInf \<Rightarrow> calculateSeverity v threshold = SeverityLow
      | NaN \<Rightarrow> False) \<and>
     (exact (v - threshold) \<and> exact ((v - threshold) / threshold) \<and>
      exact ((v - threshold) / threshold * 100) \<longrightarrow>
        exceedPercentage v threshold = Fin ((v - threshold) / threshold * 100) \<and>
        (calculateSeverity v threshold = SeverityCritical \<longleftrightarrow>
           50 \<le> (v - threshold) / threshold * 100) \<and>
        (calculateSeverity v threshold = SeverityHigh \<longleftrightarrow>
           25 \<le> (v - threshold) / threshold * 100 \<and> (v - threshold) / threshold * 100 < 50) \<and>
        (calculateSeverity v threshold = SeverityMedium \<longleftrightarrow>
           10 \<le> (v - threshold) / threshold * 100 \<and> (v - threshold) / threshold * 100 < 25) \<and>
        (calculateSeverity v threshold = SeverityLow \<longleftrightarrow>
           (v - threshold) / threshold * 100 < 10)) \<and>
     calculateSeverity 100 80 = SeverityHigh \<and>
     calculateSeverity 120 80 = SeverityCritical \<and>
     calculateSeverity 88 80 = SeverityMedium \<and>
     calculateSeverity 84 80 = SeverityLow"
proof -
  assume pos: "0 < threshold"
  have a: "case exceedPercentage v threshold of
        Fin x \<Rightarrow>
          (calculateSeverity v threshold = SeverityCritical \<longleftrightarrow> 50 \<le> x) \<and>
          (calculateSeverity v threshold = SeverityHigh \<longleftrightarrow> 25 \<le> x \<and> x < 50) \<and>
          (calculateSeverity v threshold = SeverityMedium \<longleftrightarrow> 10 \<le> x \<and> x < 25) \<and>
          (calculateSeverity v threshold = SeverityLow \<longleftrightarrow> x < 10)
      | PInf \<Rightarrow> calculateSeverity v threshold = SeverityCritical
      | NegZero \<Rightarrow> calculateSeverity v threshold = SeverityLow
      | NInf \<Rightarrow> calculateSeverity v threshold = SeverityLow
      | NaN \<Rightarrow> False"
  proof (cases "exceedPercentage v threshold")
    case (Fin x)
    then show ?thesis using severity_of_Fin [of v threshold x] by simp
  next
    case NaN
    then show ?thesis using exceedPercentage_not_NaN [OF pos, of v] by simp
  qed (simp_all add: calculateSeverity_def fge_def)
  have b: "exact (v - threshold) \<and> exact ((v - threshold) / threshold) \<and>
      exact ((v - threshold) / threshold * 100) \<longrightarrow>
        exceedPercentage v threshold = Fin ((v - threshold) / threshold * 100) \<and>
        (calculateSeverity v threshold = SeverityCritical \<longleftrightarrow>
           50 \<le> (v - threshold) / threshold * 100) \<and>
        (calculateSeverity v threshold = SeverityHigh \<longleftrightarrow>
           25 \<le> (v - threshold) / threshold * 100 \<and> (v - threshold) / threshold * 100 < 50) \<and>
        (calculateSeverity v threshold = SeverityMedium \<longleftrightarrow>
           10 \<le> (v - threshold) / threshold * 100 \<and> (v - threshold) / threshold * 100 < 25) \<and>
        (calculateSeverity v threshold = SeverityLow \<longleftrightarrow>
           (v - threshold) / threshold * 100 < 10)"
    using exceedPercentage_exact [OF pos, of v]
      severity_of_Fin [of v threshold "(v - threshold) / threshold * 100"]
    by blast
  show ?thesis
    using a b severity_examples by blast
qed

theorem calculateSeverity_tiers_counterexample:
  "exact (3802163985407541 / 1125899906842624) \<and>
   exact (6913025428013711 / 2251799813685248) \<and>
   (0::real) < 6913025428013711 / 2251799813685248 \<and>
   (3802163985407541 / 1125899906842624 - 6913025428013711 / 2251799813685248) /
     (6913025428013711 / 2251799813685248) * 100 < (10::real) \<and>
   exceedPercentage (3802163985407541 / 1125899906842624) (6913025428013711 / 2251799813685248)
     = Fin 10 \<and>
   calculateSeverity (3802163985407541 / 1125899906842624) (6913025428013711 / 2251799813685248)
     = SeverityMedium"
  by (simp add: calculateSeverity_def float_defs exact_def)

theorem calculateSeverity_tiers_witness:
  "(0::real) < 80 \<and>
   exact (100 - 80) \<and> exact ((100 - 80) / 80) \<and> exact ((100 - 80) / 80 * 100) \<and>
   exceedPercentage 100 80 = Fin 25 \<and>
   calculateSeverity 100 80 = SeverityHigh \<and>
   exceedPercentage 99 80 = Fin 23.75 \<and>
   calculateSeverity 99 80 = SeverityMedium"
proof -
  have e: "(0::real) < 80" "exact (100 - 80)" "exact ((100 - 80) / 80)"
    "exact ((100 - 80) / 80 * 100)" "exceedPercentage 99 80 = Fin 23.75"
    by (simp_all add: float_defs exact_def)
  have a: "exceedPercentage 100 80 = Fin ((100 - 80) / 80 * 100) \<and>
      (calculateSeverity 100 80 = SeverityHigh \<longleftrightarrow>
         25 \<le> (100 - 80) / 80 * (100::real) \<and> (100 - 80) / 80 * 100 < (50::real))"
    using calculateSeverity_tiers [where v = 100 and threshold = 80] e by blast
  have b: "calculateSeverity 99 80 = SeverityMedium"
    using calculateSeverity_tiers [where v = 99 and threshold = 80] e by simp
  show ?thesis
    using e a b by simp
qed

section \<open>The alert lifecycle\<close>

lemma db_call_simps [simp]:
  "alerts (db_call w) = alerts w" "clock (db_call w) = clock w"
  "alerts_seq (db_call w) = alerts_seq w" "metrics (db_call w) = metrics w"
  "metrics_seq (db_call w) = metrics_seq w" "logs (db_call w) = logs w"
  "metric_thresholds (db_call w) = metric_thresholds w"
  "cpu_Percent (db_call w) = cpu_Percent w" "mem_UsedPercent (db_call w) = mem_UsedPercent w"
  by (simp_all add: db_call_def)

lemma log_Printf_simps [simp]:
  "alerts (log_Printf e w) = alerts w" "clock (log_Printf e w) = clock w"
  "faults (log_Printf e w) = faults w" "alerts_seq (log_Printf e w) = alerts_seq w"
  "metrics (log_Printf e w) = metrics w" "metrics_seq (log_Printf e w) = metrics_seq w"
  "metric_thresholds (log_Printf e w) = metric_thresholds w"
  "cpu_Percent (log_Printf e w) = cpu_Percent w" "mem_UsedPercent (log_Printf e w) = mem_UsedPercent w"
  "logs (log_Printf e w) = logs w @ [e]"
  by (simp_all add: log_Printf_def)

lemma no_faults_db_call: "no_faults w \<Longrightarrow> \<not> failing w \<and> no_faults (db_call w)"
  by (cases "faults w") (auto simp: no_faults_def failing_def db_call_def)

lemma no_faults_log [simp]: "no_faults (log_Printf e w) = no_faults w"
  by (simp add: no_faults_def)

lemma no_faults_tables [simp]:
  "no_faults (w\<lparr>alerts := xs\<rparr>) = no_faults w" "no_faults (w\<lparr>alerts_seq := n\<rparr>) = no_faults w"
  by (simp_all add: no_faults_def)

lemma resolveActiveAlerts_alerts:
  "alerts (resolveActiveAlerts t w) = (if failing w then alerts w else resolved_rows t w)"
  by (simp add: resolveActiveAlerts_def update_resolved_def resolved_rows_def)

lemma resolveActiveAlerts_env [simp]:
  "clock (resolveActiveAlerts t w) = clock w"
  "alerts_seq (resolveActiveAlerts t w) = alerts_seq w"
  "metric_thresholds (resolveActiveAlerts t w) = metric_thresholds w"
  by (simp_all add: resolveActiveAlerts_def update_resolved_def)

lemma resolveActiveAlerts_no_faults:
  "no_faults w \<Longrightarrow> no_faults (resolveActiveAlerts t w)"
  using no_faults_db_call [of w]
  by (simp add: resolveActiveAlerts_def update_resolved_def Let_def)

text \<open>The breach branch, as a function of its own.\<close>

lemma check_threshold_breach:
  assumes "currentValue_of m (MetricThreshold.Type th) = Some v" "MetricThreshold.Threshold th < v"
  shows "alerts (check_threshold m th w) =
           (if \<not> failing w \<and> filter (active_of (MetricThreshold.Type th)) (alerts w) = [] \<and>
               \<not> failing (db_call w)
            then alerts w @ [created_row m th v w] else alerts w)"
    and "alerts_seq (check_threshold m th w) =
           (if \<not> failing w \<and> filter (active_of (MetricThreshold.Type th)) (alerts w) = [] \<and>
               \<not> failing (db_call w)
            then Suc (alerts_seq w) else alerts_seq w)"
    and "clock (check_threshold m th w) = clock w"
    and "metric_thresholds (check_threshold m th w) = metric_thresholds w"
    and "no_faults w \<Longrightarrow> no_faults (check_threshold m th w)"
  using assms no_faults_db_call [of w] no_faults_db_call [of "db_call w"]
  by (simp_all add: check_threshold_def first_active_alert_def create_alert_def created_row_def
      split: list.splits)

lemma check_threshold_calm:
  assumes "currentValue_of m (MetricThreshold.Type th) = Some v" "\<not> MetricThreshold.Threshold th < v"
  shows "check_threshold m th w = resolveActiveAlerts (MetricThreshold.Type th) w"
  using assms by (simp add: check_threshold_def)

lemma check_threshold_skip:
  assumes "currentValue_of m (MetricThreshold.Type th) = None"
  shows "check_threshold m th w = w"
  using assms by (simp add: check_threshold_def)

lemma active_of_resolved:
  "active_of t (if active_of t' a then resolve_row n u a else a) = (t \<noteq> t' \<and> active_of t a)"
  by (auto simp: active_of_def resolve_row_def)

lemma filter_active_resolved:
  "filter (active_of t) (map (\<lambda>a. if active_of t' a then resolve_row n u a else a) xs) =
     (if t = t' then [] else filter (active_of t) xs)"
proof (cases "t = t'")
  case True
  then show ?thesis
    by (simp add: filter_map comp_def active_of_resolved)
next
  case False
  have "map (\<lambda>a. if active_of t' a then resolve_row n u a else a) (filter (active_of t) xs) =
        filter (active_of t) xs"
    using False by (intro map_idI) (auto simp: active_of_def)
  with False show ?thesis
    by (simp add: filter_map comp_def active_of_resolved)
qed

lemma type_resolve_row [simp]: "Alert.Type (resolve_row n u a) = Alert.Type a"
  by (simp add: resolve_row_def)

lemma filter_type_resolved:
  "t \<noteq> t' \<Longrightarrow>
   filter (\<lambda>a. Alert.Type a = t) (map (\<lambda>a. if active_of t' a then resolve_row n u a else a) xs) =
     filter (\<lambda>a. Alert.Type a = t) xs"
proof (induction xs)
  case Nil
  then show ?case by simp
next
  case (Cons a xs)
  have "Alert.Type a = t \<Longrightarrow> \<not> active_of t' a"
    using Cons.prems by (simp add: active_of_def)
  with Cons show ?case by auto
qed

lemma created_row_fields [simp]:
  "Alert.Type (created_row m th v w) = MetricThreshold.Type th"
  "Status (created_row m th v w) = AlertActive"
  by (simp_all add: created_row_def new_alert_def)

lemma check_threshold_frame:
  assumes "MetricThreshold.Type th \<noteq> t"
  shows "filter (\<lambda>a. Alert.Type a = t) (alerts (check_threshold m th w)) =
         filter (\<lambda>a. Alert.Type a = t) (alerts w)"
proof (cases "currentValue_of m (MetricThreshold.Type th)")
  case None
  then show ?thesis by (simp add: check_threshold_skip)
next
  case (Some v)
  show ?thesis
  proof (cases "MetricThreshold.Threshold th < v")
    case True
    with Some assms show ?thesis by (simp add: check_threshold_breach(1))
  next
    case False
    with Some assms show ?thesis
      by (simp add: check_threshold_calm resolveActiveAlerts_alerts resolved_rows_def
          filter_type_resolved)
  qed
qed

lemma check_threshold_invariant:
  assumes "at_most_one_active w"
  shows "at_most_one_active (check_threshold m th w)"
proof (cases "currentValue_of m (MetricThreshold.Type th)")
  case None
  with assms show ?thesis by (simp add: check_threshold_skip)
next
  case (Some v)
  show ?thesis
  proof (cases "MetricThreshold.Threshold th < v")
    case True
    have "length (filter (active_of t) (alerts (check_threshold m th w))) \<le> 1" for t
      using assms Some True
      by (cases "t = MetricThreshold.Type th")
        (auto simp: check_threshold_breach(1) at_most_one_active_def active_of_def)
    then show ?thesis by (simp add: at_most_one_active_def)
  next
    case False
    with Some assms show ?thesis
      by (simp add: check_threshold_calm resolveActiveAlerts_alerts resolved_rows_def
          filter_active_resolved at_most_one_active_def)
  qed
qed

lemma check_loop_invariant:
  "at_most_one_active w \<Longrightarrow> at_most_one_active (check_loop m ths w)"
  by (induction ths arbitrary: w) (simp_all add: check_threshold_invariant)

lemma check_loop_frame:
  "\<forall>th \<in> set ths. MetricThreshold.Type th \<noteq> t \<Longrightarrow>
   filter (\<lambda>a. Alert.Type a = t) (alerts (check_loop m ths w)) =
   filter (\<lambda>a. Alert.Type a = t) (alerts w)"
  by (induction ths arbitrary: w) (simp_all add: check_threshold_frame)

lemma at_most_one_active_db_call [simp]:
  "at_most_one_active (db_call w) = at_most_one_active w"
  by (simp add: at_most_one_active_def)

lemma CheckThresholds_invariant:
  "at_most_one_active w \<Longrightarrow> at_most_one_active (snd (CheckThresholds m w))"
  by (simp add: CheckThresholds_def find_enabled_thresholds_def check_loop_invariant)

lemma install_tables [simp]:
  "alerts (install e w) = alerts w" "alerts_seq (install e w) = alerts_seq w"
  "metrics (install e w) = metrics w" "metrics_seq (install e w) = metrics_seq w"
  "logs (install e w) = logs w"
  by (simp_all add: install_def)

lemma at_most_one_active_cong:
  "alerts w' = alerts w \<Longrightarrow> at_most_one_active w' = at_most_one_active w"
  by (simp add: at_most_one_active_def)

lemma on_alert_tick_invariant:
  assumes "at_most_one_active w"
  shows "at_most_one_active (on_alert_tick w)"
proof (cases "GetCurrentMetrics w")
  case (Inl e)
  with assms show ?thesis
    by (simp add: on_alert_tick_def at_most_one_active_cong [of "log_Printf _ w" w])
next
  case (Inr m)
  obtain r w1 where c: "CheckThresholds m w = (r, w1)"
    by (cases "CheckThresholds m w")
  with CheckThresholds_invariant [OF assms, of m] have "at_most_one_active w1"
    by simp
  with Inr c show ?thesis
    by (cases r) (simp_all add: on_alert_tick_def at_most_one_active_cong [of "log_Printf _ w1" w1])
qed

lemma alert_monitoring_invariant:
  "at_most_one_active w \<Longrightarrow> at_most_one_active (alert_monitoring es w)"
proof (induction es w rule: alert_monitoring.induct)
  case (4 e es w)
  have "at_most_one_active (install e w)"
    using "4.prems" by (simp add: at_most_one_active_cong [of "install e w" w])
  then show ?case
    using "4.IH" by (simp add: on_alert_tick_invariant)
qed simp_all

text \<open>
  C1. Along every sequence of readings and threshold evaluations made through
  \<open>CheckThresholds\<close>, called alone or from the monitoring loop, the number of alerts with
  status active of a metric type stays 0 or 1: a table with at most one active alert per
  type has at most one per type afterwards, whatever the thresholds, the readings and
  the failures of the store are.
\<close>

theorem at_most_one_active_alert:
  "at_most_one_active w \<Longrightarrow>
     at_most_one_active (snd (CheckThresholds currentMetrics w)) \<and>
     at_most_one_active (alert_monitoring events w)"
  by (simp add: CheckThresholds_invariant alert_monitoring_invariant)

theorem at_most_one_active_alert_witness:
  "at_most_one_active world0 \<and>
   at_most_one_active (alert_monitoring
      [Tick (sampled 1 90 50), Tick (sampled 2 95 50), Tick (sampled 3 70 50),
       Tick (sampled 4 85 80)] world0) \<and>
   map (\<lambda>a. (Alert.ID a, Alert.Type a, Status a, ResolvedAt a))
     (alerts (alert_monitoring
        [Tick (sampled 1 90 50), Tick (sampled 2 95 50), Tick (sampled 3 70 50),
         Tick (sampled 4 85 80)] world0)) =
   [(1, ''cpu_usage'', AlertResolved, Some 3), (2, ''cpu_usage'', AlertActive, None),
    (3, ''memory_usage'', AlertActive, None)]"
proof -
  have h: "at_most_one_active world0"
    by (simp add: at_most_one_active_def world0_def)
  have inv: "at_most_one_active (alert_monitoring
      [Tick (sampled 1 90 50), Tick (sampled 2 95 50), Tick (sampled 3 70 50),
       Tick (sampled 4 85 80)] world0)"
    using at_most_one_active_alert [OF h] by blast
  have run: "map (\<lambda>a. (Alert.ID a, Alert.Type a, Status a, ResolvedAt a))
     (alerts (alert_monitoring
        [Tick (sampled 1 90 50), Tick (sampled 2 95 50), Tick (sampled 3 70 50),
         Tick (sampled 4 85 80)] world0)) =
   [(1, ''cpu_usage'', AlertResolved, Some 3), (2, ''cpu_usage'', AlertActive, None),
    (3, ''memory_usage'', AlertActive, None)]"
    by (simp add: run_defs)
  from h inv run show ?thesis by blast
qed

lemma CheckThresholds_frame:
  assumes "\<forall>th \<in> set (metric_thresholds w). MetricThreshold.Type th = t \<longrightarrow> \<not> Enabled th"
  shows "filter (\<lambda>a. Alert.Type a = t) (alerts (snd (CheckThresholds m w))) =
         filter (\<lambda>a. Alert.Type a = t) (alerts w)"
proof -
  have "\<forall>th \<in> set (filter Enabled (metric_thresholds w)). MetricThreshold.Type th \<noteq> t"
    using assms by auto
  then show ?thesis
    by (simp add: CheckThresholds_def find_enabled_thresholds_def check_loop_frame)
qed

lemma check_loop_append:
  "check_loop m (xs @ ys) w = check_loop m ys (check_loop m xs w)"
  by (induction xs arbitrary: w) simp_all

lemma check_threshold_clock [simp]: "clock (check_threshold m th w) = clock w"
proof (cases "currentValue_of m (MetricThreshold.Type th)")
  case None
  then show ?thesis by (simp add: check_threshold_skip)
next
  case (Some v)
  then show ?thesis
    by (cases "MetricThreshold.Threshold th < v")
      (simp_all add: check_threshold_breach(3) check_threshold_calm)
qed

lemma check_threshold_no_faults:
  assumes "no_faults w"
  shows "no_faults (check_threshold m th w)"
proof (cases "currentValue_of m (MetricThreshold.Type th)")
  case None
  with assms show ?thesis by (simp add: check_threshold_skip)
next
  case (Some v)
  with assms show ?thesis
    by (cases "MetricThreshold.Threshold th < v")
      (simp_all add: check_threshold_breach(5) check_threshold_calm resolveActiveAlerts_no_faults)
qed

lemma check_loop_clock [simp]: "clock (check_loop m ths w) = clock w"
  by (induction ths arbitrary: w) simp_all

lemma check_loop_no_faults: "no_faults w \<Longrightarrow> no_faults (check_loop m ths w)"
  by (induction ths arbitrary: w) (simp_all add: check_threshold_no_faults)

lemma active_via_type:
  "filter (active_of t) xs =
   filter (\<lambda>a. Status a = AlertActive) (filter (\<lambda>a. Alert.Type a = t) xs)"
  by (simp add: active_of_def [abs_def])

text \<open>Where the types of the thresholds differ, a cycle touches a type at one threshold only.\<close>

lemma check_loop_split:
  assumes "distinct (map MetricThreshold.Type ths)" "th \<in> set ths"
  shows "filter (\<lambda>a. Alert.Type a = MetricThreshold.Type th) (alerts (check_loop m ths w)) =
         filter (\<lambda>a. Alert.Type a = MetricThreshold.Type th)
           (alerts (check_threshold m th
              (check_loop m
                 (takeWhile (\<lambda>x. MetricThreshold.Type x \<noteq> MetricThreshold.Type th) ths) w)))"
proof -
  from assms(2) obtain pre post where ths: "ths = pre @ th # post"
    by (auto dest: split_list)
  with assms(1) have pre: "\<forall>x \<in> set pre. MetricThreshold.Type x \<noteq> MetricThreshold.Type th"
    and post: "\<forall>x \<in> set post. MetricThreshold.Type x \<noteq> MetricThreshold.Type th"
    by (auto simp: image_iff)
  have tw: "takeWhile (\<lambda>x. MetricThreshold.Type x \<noteq> MetricThreshold.Type th) ths = pre"
    using pre by (simp add: ths takeWhile_append2)
  show ?thesis
    using post by (simp add: tw) (simp add: ths check_loop_append check_loop_frame)
qed

lemma arrival_frame:
  "filter (\<lambda>a. Alert.Type a = MetricThreshold.Type th) (alerts (arrival m th w)) =
   filter (\<lambda>a. Alert.Type a = MetricThreshold.Type th) (alerts w)"
proof -
  have "\<forall>x \<in> set (takeWhile (\<lambda>x. MetricThreshold.Type x \<noteq> MetricThreshold.Type th)
          (filter Enabled (metric_thresholds w))).
        MetricThreshold.Type x \<noteq> MetricThreshold.Type th"
    by (auto dest: set_takeWhileD)
  from check_loop_frame [OF this, of m "db_call w"] show ?thesis
    by (simp add: arrival_def)
qed

lemma arrival_clock [simp]: "clock (arrival m th w) = clock w"
  by (simp add: arrival_def)

lemma arrival_no_faults: "no_faults w \<Longrightarrow> no_faults (arrival m th w)"
  using no_faults_db_call [of w] by (simp add: arrival_def check_loop_no_faults)

lemma CheckThresholds_split:
  assumes "distinct (map MetricThreshold.Type (filter Enabled (metric_thresholds w)))"
    "th \<in> set (metric_thresholds w)" "Enabled th"
  shows "filter (\<lambda>a. Alert.Type a = MetricThreshold.Type th) (alerts (snd (CheckThresholds m w))) =
         (if failing w then filter (\<lambda>a. Alert.Type a = MetricThreshold.Type th) (alerts w)
          else filter (\<lambda>a. Alert.Type a = MetricThreshold.Type th)
                 (alerts (check_threshold m th (arrival m th w))))"
proof -
  have "th \<in> set (filter Enabled (metric_thresholds w))"
    using assms(2,3) by simp
  from check_loop_split [OF assms(1) this, of m "db_call w"] show ?thesis
    by (simp add: CheckThresholds_def find_enabled_thresholds_def arrival_def)
qed

lemma filter_type_resolved_same:
  "filter (\<lambda>a. Alert.Type a = t) (map (\<lambda>a. if active_of t a then resolve_row n u a else a) xs) =
   map (\<lambda>a. if Status a = AlertActive then resolve_row n u a else a)
     (filter (\<lambda>a. Alert.Type a = t) xs)"
  by (induction xs) (auto simp: active_of_def)

text \<open>
  C5. For a metric type whose threshold is disabled, an evaluation cycle neither creates nor
  resolves an alert of that type: the alerts of the type, active ones included, are
  after the cycle what they were before it.
\<close>

theorem disabled_threshold_skipped:
  "\<forall>th \<in> set (metric_thresholds w). MetricThreshold.Type th = t \<longrightarrow> \<not> Enabled th \<Longrightarrow>
   filter (\<lambda>a. Alert.Type a = t) (alerts (snd (CheckThresholds currentMetrics w))) =
   filter (\<lambda>a. Alert.Type a = t) (alerts w)"
  by (rule CheckThresholds_frame)

theorem disabled_threshold_skipped_witness:
  "map (\<lambda>th. (MetricThreshold.Type th, Enabled th)) (metric_thresholds cpu_disabled) =
     [(CPUUsage, False), (MemoryUsage, True)] \<and>
   currentValue_of (reading 2 70 50) CPUUsage = Some 70 \<and>
   filter (\<lambda>a. Alert.Type a = CPUUsage) (alerts cpu_disabled) = [cpu_alert] \<and>
   filter (\<lambda>a. Alert.Type a = CPUUsage)
     (alerts (snd (CheckThresholds (reading 2 70 50) cpu_disabled))) = [cpu_alert]"
proof -
  have h: "\<forall>th \<in> set (metric_thresholds cpu_disabled).
      MetricThreshold.Type th = CPUUsage \<longrightarrow> \<not> Enabled th"
    by (simp add: example_defs cpu_threshold_def memory_threshold_def CPUUsage_def MemoryUsage_def)
  from disabled_threshold_skipped [OF h, of "reading 2 70 50"] show ?thesis
    by (simp add: example_defs currentValue_of_def install_def world0_def cpu_threshold_def
        memory_threshold_def)
qed

lemma map_resolve_none:
  "filter cond xs = [] \<Longrightarrow> map (\<lambda>a. if cond a then f a else a) xs = xs"
  by (intro map_idI) (auto simp: filter_empty_conv)

lemma update_nothing:
  assumes "\<not> failing w" "filter (active_of t) (alerts w) = []"
  shows "update_resolved (active_of t) now w = ((None, 0), db_call w)"
proof -
  have "(db_call w)\<lparr>alerts := alerts w\<rparr> = db_call w"
    by (simp add: db_call_def)
  then show ?thesis
    using assms by (simp add: update_resolved_def map_resolve_none)
qed

lemma resolve_nothing:
  assumes "\<not> failing w" "filter (active_of t) (alerts w) = []"
  shows "resolveActiveAlerts t w = db_call w"
  using update_nothing [OF assms, of "clock w"] by (simp add: resolveActiveAlerts_def)

lemma resolve_all:
  "\<not> failing w \<Longrightarrow> filter (active_of t) (alerts (resolveActiveAlerts t w)) = []"
  by (simp add: resolveActiveAlerts_alerts resolved_rows_def filter_active_resolved)

lemma update_fails:
  "failing w \<Longrightarrow> update_resolved cond now w = ((Some ErrDatabase, 0), db_call w)"
  by (simp add: update_resolved_def)

lemma resolve_fails:
  "failing w \<Longrightarrow>
   resolveActiveAlerts t w = log_Printf (LogFailedResolve t ErrDatabase) (db_call w)"
  by (simp add: resolveActiveAlerts_def update_resolved_def)

lemma cycle_resolves:
  assumes "distinct (map MetricThreshold.Type (filter Enabled (metric_thresholds w)))"
    "th \<in> set (metric_thresholds w)" "Enabled th"
    "currentValue_of m (MetricThreshold.Type th) = Some v" "v \<le> MetricThreshold.Threshold th"
  shows "filter (\<lambda>a. Alert.Type a = MetricThreshold.Type th) (alerts (snd (CheckThresholds m w))) =
         (if \<not> failing w \<and> \<not> failing (arrival m th w)
          then map (\<lambda>a. if Status a = AlertActive
                   then a\<lparr>Status := AlertResolved, ResolvedAt := Some (clock w),
                          Alert.UpdatedAt := clock w\<rparr>
                   else a)
                (filter (\<lambda>a. Alert.Type a = MetricThreshold.Type th) (alerts w))
          else filter (\<lambda>a. Alert.Type a = MetricThreshold.Type th) (alerts w))"
proof -
  have "alerts (check_threshold m th (arrival m th w)) =
      (if failing (arrival m th w) then alerts (arrival m th w)
       else resolved_rows (MetricThreshold.Type th) (arrival m th w))"
    using assms(4,5) by (simp add: check_threshold_calm resolveActiveAlerts_alerts)
  then show ?thesis
    using arrival_frame [of th m w]
    by (simp add: CheckThresholds_split [OF assms(1-3)] resolved_rows_def
        filter_type_resolved_same resolve_row_def)
qed

text \<open>
  C3, as amended. In the evaluation cycle, when the reading of a metric type is at most its
  enabled threshold and the store answers the load of the thresholds and the update that
  the cycle makes for the type, every active alert of that type is resolved: its status
  becomes resolved and \<open>resolved_at\<close> is set. When one of these two calls fails, the
  alerts of the type stay as they are, an active alert included. When the type has no active
  alert and the update is answered, the resolution changes no row, with \<open>RowsAffected = 0\<close>
  and no error, and a repeated resolution changes nothing either. A failing update gives an
  error that is logged, and changes no row. (The types of the enabled thresholds differ, as
  the unique index on \<open>metric_type\<close> ensures.)
\<close>

theorem resolve_when_not_exceeding:
  "(distinct (map MetricThreshold.Type (filter Enabled (metric_thresholds w))) \<and>
    th \<in> set (metric_thresholds w) \<and> Enabled th \<and>
    currentValue_of currentMetrics (MetricThreshold.Type th) = Some v \<and>
    v \<le> MetricThreshold.Threshold th \<longrightarrow>
      filter (\<lambda>a. Alert.Type a = MetricThreshold.Type th)
        (alerts (snd (CheckThresholds currentMetrics w))) =
      (if \<not> failing w \<and> \<not> failing (arrival currentMetrics th w)
       then map (\<lambda>a. if Status a = AlertActive
                then a\<lparr>Status := AlertResolved, ResolvedAt := Some (clock w),
                       Alert.UpdatedAt := clock w\<rparr>
                else a)
              (filter (\<lambda>a. Alert.Type a = MetricThreshold.Type th) (alerts w))
       else filter (\<lambda>a. Alert.Type a = MetricThreshold.Type th) (alerts w))) \<and>
   (no_faults w \<longrightarrow> \<not> failing w \<and> \<not> failing (arrival currentMetrics th w)) \<and>
   (\<not> failing w \<and> filter (active_of t) (alerts w) = [] \<longrightarrow>
      update_resolved (active_of t) (clock w) w = ((None, 0), db_call w) \<and>
      resolveActiveAlerts t w = db_call w) \<and>
   (\<not> failing w \<and> \<not> failing (resolveActiveAlerts t w) \<longrightarrow>
      resolveActiveAlerts t (resolveActiveAlerts t w) = db_call (resolveActiveAlerts t w)) \<and>
   (failing w \<longrightarrow>
      update_resolved (active_of t) (clock w) w = ((Some ErrDatabase, 0), db_call w) \<and>
      resolveActiveAlerts t w = log_Printf (LogFailedResolve t ErrDatabase) (db_call w) \<and>
      alerts (resolveActiveAlerts t w) = alerts w)"
proof -
  have nf: "no_faults w \<Longrightarrow> \<not> failing w \<and> \<not> failing (arrival currentMetrics th w)"
    using no_faults_db_call [of w] no_faults_db_call [of "arrival currentMetrics th w"]
      arrival_no_faults [of w currentMetrics th]
    by blast
  have fl: "failing w \<Longrightarrow> alerts (resolveActiveAlerts t w) = alerts w"
    by (simp add: resolveActiveAlerts_alerts)
  show ?thesis
    using cycle_resolves [of w th currentMetrics v] update_nothing [of w t "clock w"]
      resolve_nothing [of w t] resolve_nothing [of "resolveActiveAlerts t w" t] resolve_all [of w t]
      nf update_fails [of w "active_of t" "clock w"] resolve_fails [of w t] fl
    by blast
qed

theorem resolve_when_not_exceeding_counterexample:
  "distinct (map MetricThreshold.Type (filter Enabled (metric_thresholds update_down))) \<and>
   cpu_threshold \<in> set (metric_thresholds update_down) \<and> Enabled cpu_threshold \<and>
   currentValue_of (reading 2 70 50) (MetricThreshold.Type cpu_threshold) = Some 70 \<and>
   70 \<le> MetricThreshold.Threshold cpu_threshold \<and>
   alerts update_down = [cpu_alert] \<and> active_of CPUUsage cpu_alert \<and>
   alerts (snd (CheckThresholds (reading 2 70 50) update_down)) = [cpu_alert]"
  by (simp add: update_down_def example_defs install_def sampled_def world0_def
      default_thresholds_def cpu_threshold_def memory_threshold_def CPUUsage_def
      MemoryUsage_def currentValue_of_def CheckThresholds_def find_enabled_thresholds_def
      check_threshold_def first_active_alert_def resolveActiveAlerts_def update_resolved_def
      failing_def db_call_def log_Printf_def Let_def active_of_def)


theorem resolve_when_not_exceeding_witness:
  "distinct (map MetricThreshold.Type (filter Enabled (metric_thresholds one_active))) \<and>
   cpu_threshold \<in> set (metric_thresholds one_active) \<and> Enabled cpu_threshold \<and>
   currentValue_of (reading 2 70 50) (MetricThreshold.Type cpu_threshold) = Some 70 \<and>
   70 \<le> MetricThreshold.Threshold cpu_threshold \<and>
   \<not> failing one_active \<and> \<not> failing (arrival (reading 2 70 50) cpu_threshold one_active) \<and>
   filter (\<lambda>a. Alert.Type a = CPUUsage) (alerts one_active) = [cpu_alert] \<and>
   filter (\<lambda>a. Alert.Type a = CPUUsage)
     (alerts (snd (CheckThresholds (reading 2 70 50) one_active))) =
     [cpu_alert\<lparr>Status := AlertResolved, ResolvedAt := Some 2, Alert.UpdatedAt := 2\<rparr>] \<and>
   no_faults one_active \<and>
   filter (active_of MemoryUsage) (alerts one_active) = [] \<and>
   update_resolved (active_of MemoryUsage) 2 one_active = ((None, 0), db_call one_active) \<and>
   resolveActiveAlerts MemoryUsage one_active = db_call one_active \<and>
   \<not> failing (resolveActiveAlerts CPUUsage one_active) \<and>
   resolveActiveAlerts CPUUsage (resolveActiveAlerts CPUUsage one_active) =
     db_call (resolveActiveAlerts CPUUsage one_active) \<and>
   failing (db_call update_down) \<and>
   alerts (resolveActiveAlerts CPUUsage (db_call update_down)) = [cpu_alert]"
proof -
  have h: "no_faults one_active"
    "distinct (map MetricThreshold.Type (filter Enabled (metric_thresholds one_active)))"
    "cpu_threshold \<in> set (metric_thresholds one_active)" "Enabled cpu_threshold"
    "currentValue_of (reading 2 70 50) (MetricThreshold.Type cpu_threshold) = Some 70"
    "70 \<le> MetricThreshold.Threshold cpu_threshold"
    by (simp_all add: example_defs no_faults_def install_def sampled_def world0_def
        default_thresholds_def cpu_threshold_def memory_threshold_def CPUUsage_def
        MemoryUsage_def currentValue_of_def)
  have e: "MetricThreshold.Type cpu_threshold = CPUUsage"
    "filter (\<lambda>a. Alert.Type a = CPUUsage) (alerts one_active) = [cpu_alert]"
    "Status cpu_alert = AlertActive" "clock one_active = 2"
    "\<not> failing one_active" "filter (active_of MemoryUsage) (alerts one_active) = []"
    by (simp_all add: example_defs cpu_threshold_def install_def sampled_def world0_def
        failing_def active_of_def CPUUsage_def MemoryUsage_def)
  have f: "\<not> failing (resolveActiveAlerts CPUUsage one_active)"
    by (simp add: resolveActiveAlerts_def update_resolved_def failing_def db_call_def
        log_Printf_def example_defs install_def sampled_def world0_def)
  have g: "failing (db_call update_down)" "alerts (db_call update_down) = [cpu_alert]"
    by (simp_all add: update_down_def example_defs install_def sampled_def world0_def
        failing_def db_call_def)
  have a: "\<not> failing (arrival (reading 2 70 50) cpu_threshold one_active)"
    using resolve_when_not_exceeding [of one_active cpu_threshold "reading 2 70 50" 70 CPUUsage] h
    by blast
  have b: "alerts (resolveActiveAlerts CPUUsage (db_call update_down)) = [cpu_alert]"
    using resolve_when_not_exceeding [of "db_call update_down" cpu_threshold "reading 2 70 50" 70
        CPUUsage] g
    by simp
  from resolve_when_not_exceeding [of one_active cpu_threshold "reading 2 70 50" 70 MemoryUsage]
    resolve_when_not_exceeding [of one_active cpu_threshold "reading 2 70 50" 70 CPUUsage]
    h e f a b g(1)
  show ?thesis
    by simp
qed


lemma cycle_breach:
  assumes "distinct (map MetricThreshold.Type (filter Enabled (metric_thresholds w)))"
    "th \<in> set (metric_thresholds w)" "Enabled th"
    "currentValue_of m (MetricThreshold.Type th) = Some v" "MetricThreshold.Threshold th < v"
  shows "filter (\<lambda>a. Alert.Type a = MetricThreshold.Type th) (alerts (snd (CheckThresholds m w))) =
           filter (\<lambda>a. Alert.Type a = MetricThreshold.Type th) (alerts w) @
           (if filter (active_of (MetricThreshold.Type th)) (alerts w) = [] \<and> \<not> failing w \<and>
               \<not> failing (arrival m th w) \<and> \<not> failing (db_call (arrival m th w))
            then [created_row m th v (arrival m th w)] else [])"
proof -
  have act: "filter (active_of (MetricThreshold.Type th)) (alerts (arrival m th w)) =
      filter (active_of (MetricThreshold.Type th)) (alerts w)"
    using arrival_frame [of th m w] by (simp only: active_via_type)
  show ?thesis
    using arrival_frame [of th m w] act
    by (simp add: CheckThresholds_split [OF assms(1-3)] check_threshold_breach(1) [OF assms(4,5)])
qed

text \<open>
  C2, as amended. In the evaluation cycle a new alert of a metric type is created exactly
  when the reading strictly exceeds the enabled threshold of the type, the type has no active
  alert, and the store answers the three calls concerned: the load of the thresholds, the
  lookup of the active alert and the insert. The new alert carries the timestamp of the
  reading as \<open>triggered_at\<close>, the reading as value, the configured threshold, the computed
  severity and the status active. When the reading exceeds the threshold and an active alert
  exists, or one of the three calls fails, no alert of the type is created or changed. (The
  types of the enabled thresholds differ.)
\<close>

theorem alert_created_iff:
  assumes "distinct (map MetricThreshold.Type (filter Enabled (metric_thresholds w)))"
    and "th \<in> set (metric_thresholds w)" and "Enabled th"
    and "currentValue_of currentMetrics (MetricThreshold.Type th) = Some v"
  shows
   "(length (filter (\<lambda>a. Alert.Type a = MetricThreshold.Type th)
               (alerts (snd (CheckThresholds currentMetrics w)))) =
     Suc (length (filter (\<lambda>a. Alert.Type a = MetricThreshold.Type th) (alerts w))) \<longleftrightarrow>
       MetricThreshold.Threshold th < v \<and>
       filter (active_of (MetricThreshold.Type th)) (alerts w) = [] \<and>
       \<not> failing w \<and> \<not> failing (arrival currentMetrics th w) \<and>
       \<not> failing (db_call (arrival currentMetrics th w))) \<and>
    (MetricThreshold.Threshold th < v \<and>
       filter (active_of (MetricThreshold.Type th)) (alerts w) = [] \<and>
       \<not> failing w \<and> \<not> failing (arrival currentMetrics th w) \<and>
       \<not> failing (db_call (arrival currentMetrics th w)) \<longrightarrow>
       (\<exists>a. filter (\<lambda>a. Alert.Type a = MetricThreshold.Type th)
                (alerts (snd (CheckThresholds currentMetrics w))) =
             filter (\<lambda>a. Alert.Type a = MetricThreshold.Type th) (alerts w) @ [a] \<and>
             Alert.Type a = MetricThreshold.Type th \<and>
             TriggeredAt a = SystemMetrics.Timestamp currentMetrics \<and>
             Alert.Value a = v \<and>
             Alert.Threshold a = MetricThreshold.Threshold th \<and>
             Severity a = calculateSeverity v (MetricThreshold.Threshold th) \<and>
             Status a = AlertActive \<and> ResolvedAt a = None)) \<and>
    (MetricThreshold.Threshold th < v \<and>
       (filter (active_of (MetricThreshold.Type th)) (alerts w) \<noteq> [] \<or>
        failing w \<or> failing (arrival currentMetrics th w) \<or>
        failing (db_call (arrival currentMetrics th w))) \<longrightarrow>
       filter (\<lambda>a. Alert.Type a = MetricThreshold.Type th)
         (alerts (snd (CheckThresholds currentMetrics w))) =
       filter (\<lambda>a. Alert.Type a = MetricThreshold.Type th) (alerts w)) \<and>
    (no_faults w \<longrightarrow>
       \<not> failing w \<and> \<not> failing (arrival currentMetrics th w) \<and>
       \<not> failing (db_call (arrival currentMetrics th w)))"
proof -
  have nf: "no_faults w \<Longrightarrow>
       \<not> failing w \<and> \<not> failing (arrival currentMetrics th w) \<and>
       \<not> failing (db_call (arrival currentMetrics th w))"
    using no_faults_db_call [of w] no_faults_db_call [of "arrival currentMetrics th w"]
      no_faults_db_call [of "db_call (arrival currentMetrics th w)"]
      arrival_no_faults [of w currentMetrics th]
    by blast
  show ?thesis
  proof (cases "MetricThreshold.Threshold th < v")
    case True
    from cycle_breach [OF assms True] True nf show ?thesis
      by (auto simp add: created_row_def new_alert_def)
  next
    case False
    then have "v \<le> MetricThreshold.Threshold th" by simp
    from cycle_resolves [OF assms this] False nf show ?thesis
      by auto
  qed
qed

theorem alert_created_iff_counterexample:
  "distinct (map MetricThreshold.Type (filter Enabled (metric_thresholds lookup_down))) \<and>
   cpu_threshold \<in> set (metric_thresholds lookup_down) \<and> Enabled cpu_threshold \<and>
   currentValue_of (reading 1 90 50) (MetricThreshold.Type cpu_threshold) = Some 90 \<and>
   MetricThreshold.Threshold cpu_threshold < 90 \<and>
   filter (active_of (MetricThreshold.Type cpu_threshold)) (alerts lookup_down) = [] \<and>
   alerts (snd (CheckThresholds (reading 1 90 50) lookup_down)) = []"
  by (simp add: lookup_down_def example_defs install_def sampled_def world0_def
      default_thresholds_def cpu_threshold_def memory_threshold_def CPUUsage_def
      MemoryUsage_def currentValue_of_def CheckThresholds_def find_enabled_thresholds_def
      check_threshold_def first_active_alert_def resolveActiveAlerts_def update_resolved_def
      failing_def db_call_def log_Printf_def Let_def)

theorem alert_created_iff_witness:
  "distinct (map MetricThreshold.Type (filter Enabled (metric_thresholds ready))) \<and>
   cpu_threshold \<in> set (metric_thresholds ready) \<and> Enabled cpu_threshold \<and>
   currentValue_of (reading 1 90 50) (MetricThreshold.Type cpu_threshold) = Some 90 \<and>
   MetricThreshold.Threshold cpu_threshold < 90 \<and>
   filter (active_of CPUUsage) (alerts ready) = [] \<and>
   \<not> failing ready \<and> \<not> failing (arrival (reading 1 90 50) cpu_threshold ready) \<and>
   \<not> failing (db_call (arrival (reading 1 90 50) cpu_threshold ready)) \<and>
   (\<exists>a. filter (\<lambda>a. Alert.Type a = CPUUsage)
           (alerts (snd (CheckThresholds (reading 1 90 50) ready))) = [a] \<and>
        Alert.Type a = CPUUsage \<and> TriggeredAt a = 1 \<and> Alert.Value a = 90 \<and>
        Alert.Threshold a = 80 \<and> Severity a = SeverityMedium \<and> Status a = AlertActive \<and>
        ResolvedAt a = None) \<and>
   memory_threshold \<in> set (metric_thresholds lookup_down) \<and> Enabled memory_threshold \<and>
   currentValue_of (reading 1 90 95) (MetricThreshold.Type memory_threshold) = Some 95 \<and>
   MetricThreshold.Threshold memory_threshold < 95 \<and>
   filter (active_of MemoryUsage) (alerts lookup_down) = [] \<and>
   \<not> failing lookup_down \<and>
   faults (arrival (reading 1 90 95) memory_threshold lookup_down) = [] \<and>
   (\<exists>a. filter (\<lambda>a. Alert.Type a = MemoryUsage)
           (alerts (snd (CheckThresholds (reading 1 90 95) lookup_down))) = [a] \<and>
        Alert.Type a = MemoryUsage \<and> TriggeredAt a = 1 \<and> Alert.Value a = 95 \<and>
        Alert.Threshold a = 75 \<and> Severity a = SeverityHigh \<and> Status a = AlertActive \<and>
        ResolvedAt a = None)"
proof -
  have h: "distinct (map MetricThreshold.Type (filter Enabled (metric_thresholds ready)))"
    "cpu_threshold \<in> set (metric_thresholds ready)" "Enabled cpu_threshold"
    "currentValue_of (reading 1 90 50) (MetricThreshold.Type cpu_threshold) = Some 90"
    by (simp_all add: example_defs install_def sampled_def world0_def
        default_thresholds_def cpu_threshold_def memory_threshold_def CPUUsage_def
        MemoryUsage_def currentValue_of_def)
  have e: "MetricThreshold.Threshold cpu_threshold < 90" "MetricThreshold.Type cpu_threshold = CPUUsage"
    "MetricThreshold.Threshold cpu_threshold = 80"
    "filter (active_of CPUUsage) (alerts ready) = []"
    "filter (\<lambda>a. Alert.Type a = CPUUsage) (alerts ready) = []"
    "SystemMetrics.Timestamp (reading 1 90 50) = 1"
    "calculateSeverity 90 80 = SeverityMedium"
    by (simp_all add: example_defs cpu_threshold_def install_def world0_def calculateSeverity_def
        float_defs)
  have f: "\<not> failing ready" "\<not> failing (arrival (reading 1 90 50) cpu_threshold ready)"
    "\<not> failing (db_call (arrival (reading 1 90 50) cpu_threshold ready))"
    by (simp_all add: arrival_def example_defs install_def sampled_def world0_def
        default_thresholds_def cpu_threshold_def memory_threshold_def failing_def db_call_def)
  have a: "\<exists>a. filter (\<lambda>a. Alert.Type a = CPUUsage)
           (alerts (snd (CheckThresholds (reading 1 90 50) ready))) = [a] \<and>
        Alert.Type a = CPUUsage \<and> TriggeredAt a = 1 \<and> Alert.Value a = 90 \<and>
        Alert.Threshold a = 80 \<and> Severity a = SeverityMedium \<and> Status a = AlertActive \<and>
        ResolvedAt a = None"
    using alert_created_iff [OF h] e f by simp
  have h': "distinct (map MetricThreshold.Type (filter Enabled (metric_thresholds lookup_down)))"
    "memory_threshold \<in> set (metric_thresholds lookup_down)" "Enabled memory_threshold"
    "currentValue_of (reading 1 90 95) (MetricThreshold.Type memory_threshold) = Some 95"
    by (simp_all add: lookup_down_def example_defs install_def sampled_def world0_def
        default_thresholds_def cpu_threshold_def memory_threshold_def CPUUsage_def
        MemoryUsage_def currentValue_of_def)
  have e': "MetricThreshold.Threshold memory_threshold < 95"
    "MetricThreshold.Type memory_threshold = MemoryUsage"
    "MetricThreshold.Threshold memory_threshold = 75"
    "filter (active_of MemoryUsage) (alerts lookup_down) = []"
    "filter (\<lambda>a. Alert.Type a = MemoryUsage) (alerts lookup_down) = []"
    "SystemMetrics.Timestamp (reading 1 90 95) = 1"
    "calculateSeverity 95 75 = SeverityHigh"
    by (simp_all add: lookup_down_def example_defs memory_threshold_def install_def world0_def
        calculateSeverity_def float_defs)
  have f': "\<not> failing lookup_down"
    "faults (arrival (reading 1 90 95) memory_threshold lookup_down) = []"
    by (simp_all add: arrival_def lookup_down_def example_defs install_def sampled_def world0_def
        default_thresholds_def cpu_threshold_def memory_threshold_def failing_def db_call_def
        CPUUsage_def MemoryUsage_def currentValue_of_def check_threshold_def
        first_active_alert_def)
  then have f'': "\<not> failing (arrival (reading 1 90 95) memory_threshold lookup_down)"
    "\<not> failing (db_call (arrival (reading 1 90 95) memory_threshold lookup_down))"
    by (simp_all add: failing_def db_call_def)
  have b: "\<exists>a. filter (\<lambda>a. Alert.Type a = MemoryUsage)
           (alerts (snd (CheckThresholds (reading 1 90 95) lookup_down))) = [a] \<and>
        Alert.Type a = MemoryUsage \<and> TriggeredAt a = 1 \<and> Alert.Value a = 95 \<and>
        Alert.Threshold a = 75 \<and> Severity a = SeverityHigh \<and> Status a = AlertActive \<and>
        ResolvedAt a = None"
    using alert_created_iff [OF h'] e' f'(1) f'' by simp
  show ?thesis
    using h e(1,4) f a h'(2-4) e'(1,4) f' b by simp
qed

text \<open>
  C10. \<open>ResolveAlert\<close> returns an error whenever no alert with the given id and status
  active exists, also when the alert exists and is resolved already, and then changes no
  alert. When such an alert exists and the store answers, it succeeds; on success the
  alert has status resolved and \<open>resolved_at\<close> set. It is not idempotent: after a
  success, a second resolution of the same id fails.
\<close>

theorem ResolveAlert_by_id:
  "(\<not> (\<exists>a \<in> set (alerts w). Alert.ID a = alertID \<and> Status a = AlertActive) \<longrightarrow>
      fst (ResolveAlert alertID w) \<noteq> None \<and> alerts (snd (ResolveAlert alertID w)) = alerts w) \<and>
   ((\<exists>a \<in> set (alerts w). Alert.ID a = alertID \<and> Status a = AlertActive) \<and> \<not> failing w \<longrightarrow>
      fst (ResolveAlert alertID w) = None) \<and>
   (fst (ResolveAlert alertID w) = None \<longrightarrow>
      alerts (snd (ResolveAlert alertID w)) =
        map (\<lambda>a. if Alert.ID a = alertID \<and> Status a = AlertActive
                  then a\<lparr>Status := AlertResolved, ResolvedAt := Some (clock w),
                         Alert.UpdatedAt := clock w\<rparr>
                  else a) (alerts w) \<and>
      (\<forall>w'. alerts w' = alerts (snd (ResolveAlert alertID w)) \<longrightarrow>
            fst (ResolveAlert alertID w') \<noteq> None))"
proof -
  let ?cond = "\<lambda>a. Alert.ID a = alertID \<and> Status a = AlertActive"
  have none: "fst (ResolveAlert alertID u) \<noteq> None" if "filter ?cond (alerts u) = []" for u
    using that by (simp add: ResolveAlert_def update_resolved_def)
  have same: "alerts (snd (ResolveAlert alertID w)) = alerts w" if "filter ?cond (alerts w) = []"
    using that by (simp add: ResolveAlert_def update_resolved_def map_resolve_none)
  have ok: "fst (ResolveAlert alertID w) = None"
    if "filter ?cond (alerts w) \<noteq> []" "\<not> failing w"
    using that by (simp add: ResolveAlert_def update_resolved_def)
  have upd: "alerts (snd (ResolveAlert alertID w)) =
      map (\<lambda>a. if ?cond a then resolve_row (clock w) (clock w) a else a) (alerts w)"
    if "fst (ResolveAlert alertID w) = None"
    using that by (simp add: ResolveAlert_def update_resolved_def split: if_splits)
  have gone: "filter ?cond (map (\<lambda>a. if ?cond a then resolve_row (clock w) (clock w) a else a) xs) = []"
    for xs
    by (induction xs) (simp_all add: resolve_row_def)
  have c1: "\<not> (\<exists>a \<in> set (alerts w). ?cond a) \<Longrightarrow>
      fst (ResolveAlert alertID w) \<noteq> None \<and> alerts (snd (ResolveAlert alertID w)) = alerts w"
    using none [of w] same by (simp add: filter_empty_conv)
  have c2: "(\<exists>a \<in> set (alerts w). ?cond a) \<and> \<not> failing w \<Longrightarrow> fst (ResolveAlert alertID w) = None"
    using ok by (simp add: filter_empty_conv)
  have c3: "fst (ResolveAlert alertID w') \<noteq> None"
    if "fst (ResolveAlert alertID w) = None" "alerts w' = alerts (snd (ResolveAlert alertID w))" for w'
    using that none [of w'] gone [of "alerts w"] by (simp add: upd)
  show ?thesis
    using c1 c2 c3 upd by (simp add: resolve_row_def)
qed

theorem ResolveAlert_by_id_witness:
  "map (\<lambda>a. (Alert.ID a, Status a)) (alerts one_active) = [(1, AlertActive)] \<and>
   \<not> failing one_active \<and>
   fst (ResolveAlert 1 one_active) = None \<and>
   alerts (snd (ResolveAlert 1 one_active)) =
     [cpu_alert\<lparr>Status := AlertResolved, ResolvedAt := Some 2, Alert.UpdatedAt := 2\<rparr>] \<and>
   fst (ResolveAlert 1 (snd (ResolveAlert 1 one_active))) \<noteq> None \<and>
   fst (ResolveAlert 7 one_active) \<noteq> None \<and>
   alerts (snd (ResolveAlert 7 one_active)) = alerts one_active"
proof -
  have e: "alerts one_active = [cpu_alert]" "Alert.ID cpu_alert = 1" "Status cpu_alert = AlertActive"
    "clock one_active = 2" "\<not> failing one_active"
    by (simp_all add: example_defs install_def sampled_def world0_def failing_def)
  from ResolveAlert_by_id [of one_active 1] ResolveAlert_by_id [of one_active 7] e
  show ?thesis
    by simp
qed

section \<open>The sampling cycle\<close>

lemma collect_success:
  assumes "cpu_Percent w = Some (c # cs)" "mem_UsedPercent w = Some u" "\<not> failing w"
    "\<not> failing (db_call w)"
  shows "fst (collectMetrics w) = ReturnedNil"
    and "metrics (snd (collectMetrics w)) =
           metrics w @ [metric_row (Suc (metrics_seq w)) CPUUsage c (clock w),
                        metric_row (Suc (Suc (metrics_seq w))) MemoryUsage u (clock w)]"
  using assms
  by (simp_all add: collectMetrics_def create_metric_def metric_row_def
      log_Printf_def db_call_def failing_def Let_def)

lemma collect_cpu_fails:
  "cpu_Percent w = None \<Longrightarrow> collectMetrics w = (ReturnedError FailedToGetCPUUsage, w)"
  by (simp add: collectMetrics_def)

lemma collect_memory_fails:
  assumes "cpu_Percent w = Some cs" "mem_UsedPercent w = None"
  shows "fst (collectMetrics w) = ReturnedError FailedToGetMemoryUsage"
    and "filter (\<lambda>x. Metric.Type x = MemoryUsage) (metrics (snd (collectMetrics w))) =
         filter (\<lambda>x. Metric.Type x = MemoryUsage) (metrics w)"
    and "cs = c # cs' \<Longrightarrow> \<not> failing w \<Longrightarrow> metrics (snd (collectMetrics w)) =
       metrics w @ [metric_row (Suc (metrics_seq w)) CPUUsage c (clock w)]"
  using assms
  by (auto simp: collectMetrics_def create_metric_def metric_row_def
      log_Printf_def db_call_def CPUUsage_def MemoryUsage_def Let_def split: list.splits)

lemma collect_no_panic:
  "cpu_Percent w \<noteq> Some [] \<Longrightarrow> fst (collectMetrics w) \<noteq> IndexPanic"
  by (auto simp: collectMetrics_def Let_def split: option.splits list.splits prod.splits)

lemma Start_loop_goes_on:
  "only_ticks es \<Longrightarrow> no_empty_sample es \<Longrightarrow>
   fst (Start_loop es w) = Running \<and>
   Start_loop (es @ es') w = Start_loop es' (snd (Start_loop es w))"
proof (induction es w rule: Start_loop.induct)
  case (4 e es w)
  have "cpu_Percent (install e w) \<noteq> Some []"
    using "4.prems" by (simp add: install_def)
  then have np: "fst (collectMetrics (install e w)) \<noteq> IndexPanic"
    by (rule collect_no_panic)
  obtain r w1 where c: "collectMetrics (install e w) = (r, w1)"
    by (cases "collectMetrics (install e w)")
  show ?case
  proof (cases r)
    case ReturnedNil
    with c "4.IH" "4.prems" show ?thesis by simp
  next
    case (ReturnedError err)
    with c "4.IH" "4.prems" show ?thesis by simp
  next
    case IndexPanic
    with c np show ?thesis by simp
  qed
qed simp_all

text \<open>
  C9, as amended. In a sampling cycle where both sources answer (the CPU sample not empty)
  and the store accepts both inserts, exactly one reading per metric type is appended, the
  CPU reading before the memory reading. When the CPU source fails nothing is appended.
  When the memory source fails no memory reading is appended, and the CPU reading the
  cycle has saved before stays in the store. In both cases \<open>collectMetrics\<close> returns the
  error; \<open>Start\<close> logs it and goes on with the ticks that follow: after any number of
  ticks, failed or not, the loop is still running and handles the later events.
\<close>

theorem sampling_cycle:
  "(cpu_Percent w = Some (c # cs) \<and> mem_UsedPercent w = Some u \<and> \<not> failing w \<and>
    \<not> failing (db_call w) \<longrightarrow>
      fst (collectMetrics w) = ReturnedNil \<and>
      metrics (snd (collectMetrics w)) =
        metrics w @ [metric_row (Suc (metrics_seq w)) CPUUsage c (clock w),
                     metric_row (Suc (Suc (metrics_seq w))) MemoryUsage u (clock w)]) \<and>
   (cpu_Percent w = None \<longrightarrow> collectMetrics w = (ReturnedError FailedToGetCPUUsage, w)) \<and>
   (cpu_Percent w = Some cs' \<and> mem_UsedPercent w = None \<longrightarrow>
      fst (collectMetrics w) = ReturnedError FailedToGetMemoryUsage \<and>
      filter (\<lambda>x. Metric.Type x = MemoryUsage) (metrics (snd (collectMetrics w))) =
      filter (\<lambda>x. Metric.Type x = MemoryUsage) (metrics w)) \<and>
   (cpu_Percent w = Some (c # cs) \<and> mem_UsedPercent w = None \<and> \<not> failing w \<longrightarrow>
      metrics (snd (collectMetrics w)) =
        metrics w @ [metric_row (Suc (metrics_seq w)) CPUUsage c (clock w)]) \<and>
   (fst (collectMetrics (install e w)) = ReturnedError err \<longrightarrow>
      Start_loop (Tick e # es) w =
        Start_loop es (log_Printf (LogErrorCollecting err) (snd (collectMetrics (install e w))))) \<and>
   (only_ticks es \<and> no_empty_sample es \<longrightarrow>
      fst (Start_loop es w) = Running \<and>
      Start_loop (es @ es') w = Start_loop es' (snd (Start_loop es w)))"
proof -
  have loop: "fst (collectMetrics (install e w)) = ReturnedError err \<Longrightarrow>
      Start_loop (Tick e # es) w =
        Start_loop es (log_Printf (LogErrorCollecting err) (snd (collectMetrics (install e w))))"
    by (cases "collectMetrics (install e w)") simp
  show ?thesis
    using collect_success [of w c cs u] collect_cpu_fails [of w]
      collect_memory_fails(1,2) [of w cs'] collect_memory_fails(3) [of w "c # cs" c cs]
      loop Start_loop_goes_on [of es w es']
    by blast
qed

theorem sampling_cycle_counterexample:
  "metrics mem_down = [] \<and>
   fst (collectMetrics mem_down) = ReturnedError FailedToGetMemoryUsage \<and>
   metrics (snd (collectMetrics mem_down)) = [metric_row 1 CPUUsage 42 5]"
  by (simp add: mem_down_def world0_def collectMetrics_def create_metric_def failing_def
      db_call_def metric_row_def Let_def)

theorem sampling_cycle_witness:
  "cpu_Percent both_up = Some [42] \<and> mem_UsedPercent both_up = Some 61 \<and>
   \<not> failing both_up \<and> \<not> failing (db_call both_up) \<and>
   fst (collectMetrics both_up) = ReturnedNil \<and>
   metrics (snd (collectMetrics both_up)) =
     [metric_row 1 CPUUsage 42 5, metric_row 2 MemoryUsage 61 5] \<and>
   cpu_Percent world0 = None \<and>
   collectMetrics world0 = (ReturnedError FailedToGetCPUUsage, world0) \<and>
   cpu_Percent mem_down = Some [42] \<and> mem_UsedPercent mem_down = None \<and>
   fst (collectMetrics mem_down) = ReturnedError FailedToGetMemoryUsage \<and>
   filter (\<lambda>x. Metric.Type x = MemoryUsage) (metrics (snd (collectMetrics mem_down))) = [] \<and>
   only_ticks [Tick cpu_down, Tick (sampled 7 42 61)] \<and>
   no_empty_sample [Tick cpu_down, Tick (sampled 7 42 61)] \<and>
   fst (Start_loop [Tick cpu_down, Tick (sampled 7 42 61)] world0) = Running \<and>
   Start_loop ([Tick cpu_down, Tick (sampled 7 42 61)] @ [CtxDone]) world0 =
     Start_loop [CtxDone] (snd (Start_loop [Tick cpu_down, Tick (sampled 7 42 61)] world0))"
proof -
  have e: "cpu_Percent both_up = Some [42]" "mem_UsedPercent both_up = Some 61"
    "\<not> failing both_up" "\<not> failing (db_call both_up)" "metrics both_up = []"
    "metrics_seq both_up = 0" "clock both_up = 5"
    "cpu_Percent world0 = None"
    "cpu_Percent mem_down = Some [42]" "mem_UsedPercent mem_down = None"
    "metrics mem_down = []"
    "only_ticks [Tick cpu_down, Tick (sampled 7 42 61)]"
    "no_empty_sample [Tick cpu_down, Tick (sampled 7 42 61)]"
    by (simp_all add: both_up_def mem_down_def cpu_down_def world0_def failing_def db_call_def
        sampled_def)
  have a: "fst (collectMetrics both_up) = ReturnedNil \<and>
      metrics (snd (collectMetrics both_up)) =
        metrics both_up @ [metric_row (Suc (metrics_seq both_up)) CPUUsage 42 (clock both_up),
          metric_row (Suc (Suc (metrics_seq both_up))) MemoryUsage 61 (clock both_up)]"
    using sampling_cycle [where w = both_up and c = 42 and cs = "[]" and u = 61] e(1-4)
    by blast
  have b: "collectMetrics world0 = (ReturnedError FailedToGetCPUUsage, world0)"
    using sampling_cycle [where w = world0] e(8) by blast
  have c: "fst (collectMetrics mem_down) = ReturnedError FailedToGetMemoryUsage \<and>
      filter (\<lambda>x. Metric.Type x = MemoryUsage) (metrics (snd (collectMetrics mem_down))) =
      filter (\<lambda>x. Metric.Type x = MemoryUsage) (metrics mem_down)"
    using sampling_cycle [where w = mem_down and cs' = "[42]"] e(9,10) by blast
  have d: "fst (Start_loop [Tick cpu_down, Tick (sampled 7 42 61)] world0) = Running \<and>
      Start_loop ([Tick cpu_down, Tick (sampled 7 42 61)] @ [CtxDone]) world0 =
        Start_loop [CtxDone] (snd (Start_loop [Tick cpu_down, Tick (sampled 7 42 61)] world0))"
    using sampling_cycle [where w = world0 and es = "[Tick cpu_down, Tick (sampled 7 42 61)]"
        and es' = "[CtxDone]"] e(12,13)
    by blast
  from a b c d e show ?thesis
    by (simp add: numeral_2_eq_2 del: Start_loop.simps)
qed

section \<open>The log analyzer: lines, ranking and file access\<close>

lemma level_words_hd:
  "l \<in> set level_words \<Longrightarrow> l' \<in> set level_words \<Longrightarrow> hd l = hd l' \<Longrightarrow> l = l'"
  by (auto simp: level_words_def)

lemma level_words_nonempty: "l \<in> set level_words \<Longrightarrow> l \<noteq> []"
  by (auto simp: level_words_def)

lemma level_match_hd:
  assumes "l \<in> set level_words" "map upper (take (length l) s) = l"
  shows "hd l = upper (hd s)"
proof -
  from assms(1) have "l \<noteq> []" by (rule level_words_nonempty)
  with assms(2) have "take (length l) s \<noteq> []" by auto
  then have "s \<noteq> []" "0 < length l" by auto
  then have "hd (map upper (take (length l) s)) = upper (hd s)"
    by (cases s) (auto simp: hd_map take_Suc_conv_app_nth neq_Nil_conv)
  with assms(2) show ?thesis by simp
qed

lemma match_level_Some:
  assumes "match_level s = Some g"
  shows "\<exists>rest. s = g @ rest" "is_level_tag g" "g \<noteq> []"
proof -
  from assms obtain l ls where f: "filter (\<lambda>l. map upper (take (length l) s) = l) level_words = l # ls"
    and g: "g = take (length l) s"
    by (auto simp: match_level_def split: list.splits)
  from f have "l \<in> set (filter (\<lambda>l. map upper (take (length l) s) = l) level_words)"
    by simp
  then have l: "l \<in> set level_words" "map upper (take (length l) s) = l"
    by auto
  show "\<exists>rest. s = g @ rest"
    using g by (metis append_take_drop_id)
  show "is_level_tag g"
    using l g by (simp add: is_level_tag_def)
  show "g \<noteq> []"
    using l g level_words_nonempty by fastforce
qed

lemma match_level_complete:
  assumes "is_level_tag g"
  shows "match_level (g @ rest) = Some g"
proof -
  let ?s = "g @ rest"
  let ?P = "\<lambda>l. map upper (take (length l) ?s) = l"
  let ?l = "map upper g"
  have l: "?l \<in> set level_words" "?P ?l"
    using assms by (simp_all add: is_level_tag_def)
  then have "?l \<in> set (filter ?P level_words)" by simp
  then have "filter ?P level_words \<noteq> []"
    by (metis empty_iff empty_set)
  then obtain l' ls where f: "filter ?P level_words = l' # ls"
    by (meson neq_Nil_conv)
  then have "l' \<in> set (filter ?P level_words)" by simp
  then have l': "l' \<in> set level_words" "?P l'" by auto
  have "hd l' = hd ?l"
    using level_match_hd [OF l'] level_match_hd [OF l] by simp
  with l(1) l'(1) have "l' = ?l" by (intro level_words_hd)
  with f show ?thesis
    by (simp add: match_level_def)
qed

lemma is_level_tag_nonempty: "is_level_tag g \<Longrightarrow> g \<noteq> []"
  by (auto simp: is_level_tag_def level_words_def)

lemma is_level_tag_hd: "is_level_tag g \<Longrightarrow> hd g \<noteq> CHR ''[''"
  by (cases g) (auto simp: is_level_tag_def level_words_def upper_def)

lemma bracket_at_iff:
  "bracket_at s = Some g \<longleftrightarrow> (\<exists>post. s = ''['' @ g @ '']'' @ post) \<and> is_level_tag g"
proof
  assume a: "bracket_at s = Some g"
  then obtain r where s: "s = CHR ''['' # r" and m: "match_level r = Some g"
    and t: "take 1 (drop (length g) r) = '']''"
    by (auto simp: bracket_at_def split: list.splits if_splits option.splits)
  from match_level_Some [OF m] obtain rest where r: "r = g @ rest" and tag: "is_level_tag g"
    by blast
  from t r obtain post where "rest = CHR '']'' # post"
    by (cases rest) auto
  with s r tag show "(\<exists>post. s = ''['' @ g @ '']'' @ post) \<and> is_level_tag g"
    by simp
next
  assume "(\<exists>post. s = ''['' @ g @ '']'' @ post) \<and> is_level_tag g"
  then obtain post where s: "s = CHR ''['' # (g @ CHR '']'' # post)" and tag: "is_level_tag g"
    by auto
  from match_level_complete [OF tag] s show "bracket_at s = Some g"
    by (simp add: bracket_at_def)
qed

lemma prefix_at_iff:
  "prefix_at s = Some g \<longleftrightarrow> (\<exists>post. s = g @ '':'' @ post) \<and> is_level_tag g"
proof
  assume a: "prefix_at s = Some g"
  then have m: "match_level s = Some g" and t: "take 1 (drop (length g) s) = '':''"
    by (auto simp: prefix_at_def split: if_splits option.splits)
  from match_level_Some [OF m] obtain rest where r: "s = g @ rest" and tag: "is_level_tag g"
    by blast
  from t r obtain post where "rest = CHR '':'' # post"
    by (cases rest) auto
  with r tag show "(\<exists>post. s = g @ '':'' @ post) \<and> is_level_tag g"
    by simp
next
  assume "(\<exists>post. s = g @ '':'' @ post) \<and> is_level_tag g"
  then obtain post where s: "s = g @ CHR '':'' # post" and tag: "is_level_tag g"
    by auto
  from match_level_complete [OF tag] s show "prefix_at s = Some g"
    by (simp add: prefix_at_def)
qed

lemma find_bracket_Some:
  "find_bracket s = Some g \<Longrightarrow>
   (\<exists>pre post. s = pre @ ''['' @ g @ '']'' @ post) \<and> is_level_tag g"
proof (induction s)
  case Nil
  then show ?case by simp
next
  case (Cons c cs)
  show ?case
  proof (cases "bracket_at (c # cs)")
    case None
    with Cons.prems have "find_bracket cs = Some g" by simp
    from Cons.IH [OF this] obtain pre post where "cs = pre @ ''['' @ g @ '']'' @ post"
      and tag: "is_level_tag g"
      by blast
    then have "c # cs = (c # pre) @ ''['' @ g @ '']'' @ post" by simp
    with tag show ?thesis by blast
  next
    case (Some g')
    with Cons.prems have "g' = g" by simp
    with Some have "bracket_at (c # cs) = Some g" by simp
    then have "(\<exists>post. c # cs = [] @ ''['' @ g @ '']'' @ post) \<and> is_level_tag g"
      by (simp add: bracket_at_iff)
    then show ?thesis by blast
  qed
qed

lemma find_bracket_None:
  "find_bracket s = None \<longleftrightarrow> \<not> has_bracket_tag s"
proof (induction s)
  case Nil
  then show ?case by (simp add: has_bracket_tag_def)
next
  case (Cons c cs)
  have "has_bracket_tag (c # cs) \<longleftrightarrow> bracket_at (c # cs) \<noteq> None \<or> has_bracket_tag cs"
  proof
    assume "has_bracket_tag (c # cs)"
    then obtain pre g post where l: "c # cs = pre @ ''['' @ g @ '']'' @ post" and tag: "is_level_tag g"
      by (auto simp: has_bracket_tag_def)
    show "bracket_at (c # cs) \<noteq> None \<or> has_bracket_tag cs"
    proof (cases pre)
      case Nil
      with l tag have "bracket_at (c # cs) = Some g"
        by (simp only: bracket_at_iff) auto
      then show ?thesis by simp
    next
      case (Cons p pre')
      with l have "cs = pre' @ ''['' @ g @ '']'' @ post" by simp
      with tag show ?thesis by (auto simp: has_bracket_tag_def)
    qed
  next
    assume a: "bracket_at (c # cs) \<noteq> None \<or> has_bracket_tag cs"
    show "has_bracket_tag (c # cs)"
    proof (cases "bracket_at (c # cs)")
      case None
      with a obtain pre g post where "cs = pre @ ''['' @ g @ '']'' @ post" "is_level_tag g"
        by (auto simp: has_bracket_tag_def)
      then have "c # cs = (c # pre) @ ''['' @ g @ '']'' @ post \<and> is_level_tag g" by simp
      then show ?thesis unfolding has_bracket_tag_def by blast
    next
      case (Some g)
      then have "(\<exists>post. c # cs = [] @ ''['' @ g @ '']'' @ post) \<and> is_level_tag g"
        by (simp add: bracket_at_iff)
      then show ?thesis unfolding has_bracket_tag_def by blast
    qed
  qed
  with Cons.IH show ?case
    by (auto split: option.splits)
qed

lemma prefix_excludes_bracket:
  assumes "prefix_at s = Some g"
  shows "bracket_at s = None"
proof -
  from assms obtain post where s: "s = g @ '':'' @ post" and tag: "is_level_tag g"
    by (auto simp: prefix_at_iff)
  from tag have "g \<noteq> []" "hd g \<noteq> CHR ''[''"
    by (simp_all add: is_level_tag_nonempty is_level_tag_hd)
  with s obtain c r where "s = c # r" "c \<noteq> CHR ''[''"
    by (cases g) auto
  then show ?thesis by (simp add: bracket_at_def)
qed

lemma has_prefix_tag_iff: "has_prefix_tag line \<longleftrightarrow> prefix_at line \<noteq> None"
  by (auto simp: has_prefix_tag_def prefix_at_iff)

lemma find_bracket_unfold:
  "find_bracket line =
     (case bracket_at line of Some g \<Rightarrow> Some g | None \<Rightarrow> find_bracket (drop 1 line))"
proof (cases line)
  case Nil
  then show ?thesis by (simp add: bracket_at_def)
next
  case (Cons c cs)
  then have "drop 1 line = cs" by simp
  then show ?thesis
    unfolding Cons find_bracket.simps by (simp only: Cons [symmetric])
qed

lemma FindStringSubmatch_prefix:
  assumes "has_prefix_tag line"
  shows "\<exists>g. FindStringSubmatch line = [g @ '':'', [], g] \<and> is_level_tag g"
proof -
  from assms obtain g where g: "prefix_at line = Some g"
    by (auto simp: has_prefix_tag_iff)
  then have "is_level_tag g" by (simp add: prefix_at_iff)
  with g prefix_excludes_bracket [OF g] show ?thesis
    by (simp add: FindStringSubmatch_def)
qed

lemma FindStringSubmatch_bracket:
  assumes "\<not> has_prefix_tag line" "has_bracket_tag line"
  shows "\<exists>pre g post. line = pre @ ''['' @ g @ '']'' @ post \<and>
           FindStringSubmatch line = [''['' @ g @ '']'', g, []] \<and> is_level_tag g"
proof -
  from assms(1) have p: "prefix_at line = None"
    by (simp add: has_prefix_tag_iff)
  from assms(2) obtain g where g: "find_bracket line = Some g"
    using find_bracket_None [of line] by auto
  then have "(\<exists>pre post. line = pre @ ''['' @ g @ '']'' @ post) \<and> is_level_tag g"
    by (rule find_bracket_Some)
  with g p show ?thesis
    by (auto simp: FindStringSubmatch_def find_bracket_unfold [of line] split: option.splits)
qed

lemma FindStringSubmatch_none:
  "FindStringSubmatch line = [] \<longleftrightarrow> \<not> has_prefix_tag line \<and> \<not> has_bracket_tag line"
  using find_bracket_None [of line]
  by (auto simp: FindStringSubmatch_def has_prefix_tag_iff find_bracket_unfold [of line]
      split: option.splits)

lemma ParseLine_prefix:
  assumes "has_prefix_tag line"
  shows "\<exists>g post. line = g @ '':'' @ post \<and> is_level_tag g \<and>
           ParseLine line =
             Some \<lparr>Level = ToUpper g, LogEntry.Message = message_after (CHR '':'') line, Time = []\<rparr>"
proof -
  from FindStringSubmatch_prefix [OF assms] obtain g where
    m: "FindStringSubmatch line = [g @ '':'', [], g]" and tag: "is_level_tag g"
    by blast
  from assms have "prefix_at line \<noteq> None" by (simp add: has_prefix_tag_iff)
  then obtain g' where g': "prefix_at line = Some g'" by auto
  with m prefix_excludes_bracket [OF g'] have "g' = g"
    by (simp add: FindStringSubmatch_def)
  with g' obtain post where l: "line = g @ '':'' @ post"
    by (auto simp: prefix_at_iff)
  then have "CHR '':'' \<in> set line" by simp
  moreover have "g \<noteq> []" using tag by (rule is_level_tag_nonempty)
  ultimately have "ParseLine line =
      Some \<lparr>Level = ToUpper g, LogEntry.Message = message_after (CHR '':'') line, Time = []\<rparr>"
    using m by (simp add: ParseLine_def SplitN_2_def message_after_def after_first_def Let_def)
  with l tag show ?thesis by blast
qed

lemma ParseLine_bracket:
  assumes "\<not> has_prefix_tag line" "has_bracket_tag line"
  shows "\<exists>pre g post. line = pre @ ''['' @ g @ '']'' @ post \<and> is_level_tag g \<and>
           ParseLine line =
             Some \<lparr>Level = ToUpper g, LogEntry.Message = message_after (CHR '']'') line, Time = []\<rparr>"
proof -
  from FindStringSubmatch_bracket [OF assms] obtain pre g post where
    l: "line = pre @ ''['' @ g @ '']'' @ post" and
    m: "FindStringSubmatch line = [''['' @ g @ '']'', g, []]" and tag: "is_level_tag g"
    by blast
  from assms(2) have "CHR '']'' \<in> set line"
    by (auto simp: has_bracket_tag_def)
  moreover have "g \<noteq> []" using tag by (rule is_level_tag_nonempty)
  ultimately have "ParseLine line =
      Some \<lparr>Level = ToUpper g, LogEntry.Message = message_after (CHR '']'') line, Time = []\<rparr>"
    using m by (simp add: ParseLine_def SplitN_2_def message_after_def after_first_def Let_def)
  with l tag show ?thesis by blast
qed

lemma ParseLine_None:
  "ParseLine line = None \<longleftrightarrow> \<not> has_bracket_tag line \<and> \<not> has_prefix_tag line"
proof -
  have "ParseLine line = None \<longleftrightarrow> FindStringSubmatch line = []"
    by (simp add: ParseLine_def Let_def split: prod.splits)
  then show ?thesis
    by (auto simp: FindStringSubmatch_none)
qed

lemma level_of_tag: "is_level_tag g \<Longrightarrow> ToUpper g \<in> {INFO, WARN, ERROR, DEBUG}"
  by (auto simp: is_level_tag_def ToUpper_def level_words_def INFO_def WARN_def ERROR_def DEBUG_def)

lemma scan_step_skip:
  "TrimSpace text = [] \<or> ParseLine (TrimSpace text) = None \<Longrightarrow> scan_step text st = st"
  by (auto simp: scan_step_def Let_def split: prod.splits)

lemma map_of_incr:
  "map_of (incr k m) = (map_of m)(k \<mapsto> (case map_of m k of None \<Rightarrow> 1 | Some n \<Rightarrow> Suc n))"
  by (induction m) (auto simp: fun_eq_iff)

lemma keys_incr: "fst ` set (incr k m) = insert k (fst ` set m)"
proof (induction m)
  case Nil
  then show ?case by simp
next
  case (Cons p m)
  obtain k' n where p: "p = (k', n)" by (cases p)
  show ?case
  proof (cases "k = k'")
    case True
    with p show ?thesis by simp
  next
    case False
    with p Cons show ?thesis by (simp add: insert_commute)
  qed
qed

lemma distinct_incr: "distinct (map fst m) \<Longrightarrow> distinct (map fst (incr k m))"
proof (induction m)
  case Nil
  then show ?case by simp
next
  case (Cons p m)
  obtain k' n where p: "p = (k', n)" by (cases p)
  have "fst ` set (incr k m) = insert k (fst ` set m)"
    by (rule keys_incr)
  with Cons p show ?case by auto
qed

lemma counts_empty: "counts [] {#}"
  by (simp add: counts_def)

lemma counts_incr:
  assumes "counts m M"
  shows "counts (incr k m) (add_mset k M)"
proof -
  have "map_of (incr k m) k' = (if k' \<in># add_mset k M then Some (count (add_mset k M) k') else None)"
    for k'
    using assms by (auto simp: counts_def map_of_incr not_in_iff)
  with assms show ?thesis
    by (simp add: counts_def distinct_incr)
qed

lemma scan_step_snd:
  "snd (scan_step text (stats, em)) =
     (case entry_of text of
        None \<Rightarrow> em
      | Some e \<Rightarrow> if Level e = ERROR then incr (LogEntry.Message e) em else em)"
  by (simp add: scan_step_def entry_of_def Let_def split: option.splits)

lemma scan_step_fst:
  "fst (scan_step text (stats, em)) =
     (case entry_of text of
        None \<Rightarrow> stats
      | Some e \<Rightarrow> stats\<lparr>LevelCounts := incr (Level e) (LevelCounts stats),
                        TotalEntries := Suc (TotalEntries stats)\<rparr>)"
  by (simp add: scan_step_def entry_of_def Let_def split: option.splits)

lemma error_messages_Cons:
  "error_messages (text # texts) =
     (case entry_of text of
        None \<Rightarrow> []
      | Some e \<Rightarrow> if Level e = ERROR then [LogEntry.Message e] else []) @ error_messages texts"
  by (simp add: error_messages_def List.map_filter_simps split: option.splits)

lemma scan_loop_counts:
  "counts em M \<Longrightarrow>
   counts (snd (scan_loop texts (stats, em))) (M + mset (error_messages texts))"
proof (induction texts arbitrary: stats em M)
  case Nil
  then show ?case by (simp add: error_messages_def List.map_filter_simps)
next
  case (Cons t texts)
  obtain stats' em' where s: "scan_step t (stats, em) = (stats', em')"
    by (cases "scan_step t (stats, em)")
  let ?new = "case entry_of t of None \<Rightarrow> []
      | Some e \<Rightarrow> if Level e = ERROR then [LogEntry.Message e] else []"
  have em': "em' = (case entry_of t of None \<Rightarrow> em
      | Some e \<Rightarrow> if Level e = ERROR then incr (LogEntry.Message e) em else em)"
    using scan_step_snd [of t stats em] s by simp
  have "counts em' (M + mset ?new)"
    using Cons.prems by (auto simp: em' counts_incr split: option.splits)
  from Cons.IH [OF this, of stats'] s show ?case
    by (simp add: error_messages_Cons add.assoc)
qed

lemma scan_loop_total:
  "TotalEntries (fst (scan_loop texts (stats, em))) =
     TotalEntries stats + length (List.map_filter entry_of texts)"
proof (induction texts arbitrary: stats em)
  case Nil
  then show ?case by (simp add: List.map_filter_simps)
next
  case (Cons t texts)
  obtain stats' em' where s: "scan_step t (stats, em) = (stats', em')"
    by (cases "scan_step t (stats, em)")
  have "TotalEntries stats' = TotalEntries stats + (case entry_of t of None \<Rightarrow> 0 | Some e \<Rightarrow> 1)"
    using scan_step_fst [of t stats em] s by (simp split: option.splits)
  with Cons.IH [of stats' em'] s show ?case
    by (simp add: List.map_filter_simps split: option.splits)
qed

lemma scan_loop_nothing:
  "\<forall>t \<in> set texts. entry_of t = None \<Longrightarrow> scan_loop texts st = st"
proof (induction texts arbitrary: st)
  case Nil
  then show ?case by simp
next
  case (Cons t texts)
  then have "entry_of t = None" by simp
  then have "scan_step t st = st"
    by (intro scan_step_skip) (auto simp: entry_of_def split: if_splits)
  with Cons show ?case by simp
qed

lemma mset_insert_by: "mset (insert_by lt x xs) = add_mset x (mset xs)"
  by (induction xs) simp_all

lemma mset_insertion_sort: "mset (insertion_sort lt xs) = mset xs"
  by (induction xs) (simp_all add: insertion_sort_def mset_insert_by)

lemma set_insert_by: "set (insert_by lt x xs) = insert x (set xs)"
  by (induction xs) auto

lemma sorted_insert_by:
  "sorted_wrt (\<lambda>a b. Count b \<le> Count a) xs \<Longrightarrow>
   sorted_wrt (\<lambda>a b. Count b \<le> Count a) (insert_by more_frequent x xs)"
  by (induction xs) (auto simp: set_insert_by more_frequent_def)

lemma sorted_insertion_sort:
  "sorted_wrt (\<lambda>a b. Count b \<le> Count a) (insertion_sort more_frequent xs)"
  by (induction xs) (simp_all add: insertion_sort_def sorted_insert_by)

lemma a_runtime_ok: "runtime_ok a_runtime"
  by (simp add: runtime_ok_def a_runtime_def mset_insertion_sort sorted_insertion_sort
      more_frequent_def not_less)

lemma getTopErrors_ranked:
  assumes "runtime_ok rt"
  shows "\<exists>es. mset es = mset (map frequency m) \<and>
           sorted_wrt (\<lambda>a b. Count b \<le> Count a) es \<and> getTopErrors rt m n = take n es"
proof -
  let ?es = "sort_Slice rt more_frequent (map frequency (map_range rt m))"
  have "mset ?es = mset (map frequency (map_range rt m))"
    using assms by (simp add: runtime_ok_def)
  also have "\<dots> = image_mset frequency (mset (map_range rt m))" by simp
  also have "\<dots> = mset (map frequency m)"
    using assms by (simp add: runtime_ok_def)
  finally have p: "mset ?es = mset (map frequency m)" .
  have "sorted_wrt (\<lambda>a b. \<not> more_frequent b a) ?es"
    using assms by (simp add: runtime_ok_def)
  then have s: "sorted_wrt (\<lambda>a b. Count b \<le> Count a) ?es"
    by (simp add: more_frequent_def not_less)
  have "getTopErrors rt m n = take n ?es"
    by (simp add: getTopErrors_def frequency_def Let_def)
  with p s show ?thesis by blast
qed

lemma counts_keys: "counts m M \<Longrightarrow> fst ` set m = set_mset M"
proof -
  assume a: "counts m M"
  have "dom (map_of m) = set_mset M"
    using a by (auto simp: counts_def dom_def split: if_splits)
  then show ?thesis by (simp add: dom_map_of_conv_image_fst)
qed

lemma counts_lookup:
  assumes "counts m M" "(k, c) \<in> set m"
  shows "c = count M k" "k \<in># M"
proof -
  from assms have "distinct (map fst m)" by (simp add: counts_def)
  with assms(2) have "map_of m k = Some c"
    by simp
  with assms(1) show "c = count M k" "k \<in># M"
    by (auto simp: counts_def split: if_splits)
qed

lemma counts_length: "counts m M \<Longrightarrow> length m = card (set_mset M)"
proof -
  assume a: "counts m M"
  then have "distinct (map fst m)" by (simp add: counts_def)
  then have "card (set (map fst m)) = length (map fst m)"
    by (rule distinct_card)
  with counts_keys [OF a] show ?thesis by simp
qed

lemma scan_tokens_long:
  "snd (scan_tokens ls) \<longleftrightarrow> (\<exists>l \<in> set ls. MaxScanTokenSize \<le> length l)"
  by (induction ls) (auto split: prod.splits)

lemma scan_tokens_all:
  "\<not> snd (scan_tokens ls) \<Longrightarrow> fst (scan_tokens ls) = map dropCR ls"
  by (induction ls) (auto split: prod.splits if_splits)

text \<open>What a successful analysis returns, with the runtime's ranking left open.\<close>

lemma ParseLogFile_Inr:
  assumes "fs filePath = Some file" "ParseLogFile rt fs filePath = Inr stats"
  shows "\<not> read_error file" "\<not> snd (scan_tokens (split_lines [] (bytes file)))"
    "stats = (fst (scan_loop (file_lines file)
                (\<lparr>LevelCounts = [], TopErrors = [], TotalEntries = 0\<rparr>, [])))
             \<lparr>TopErrors := getTopErrors rt
                (snd (scan_loop (file_lines file)
                   (\<lparr>LevelCounts = [], TopErrors = [], TotalEntries = 0\<rparr>, []))) 5\<rparr>"
proof -
  obtain texts tooLong where t: "scan_tokens (split_lines [] (bytes file)) = (texts, tooLong)"
    by (cases "scan_tokens (split_lines [] (bytes file))")
  from assms t have ok: "\<not> tooLong" "\<not> read_error file"
    by (auto simp: ParseLogFile_def split: prod.splits if_splits)
  with t have texts: "texts = file_lines file"
    using scan_tokens_all [of "split_lines [] (bytes file)"] by (simp add: file_lines_def)
  show "\<not> read_error file" by (rule ok)
  show "\<not> snd (scan_tokens (split_lines [] (bytes file)))"
    using t ok by simp
  show "stats = (fst (scan_loop (file_lines file)
                (\<lparr>LevelCounts = [], TopErrors = [], TotalEntries = 0\<rparr>, [])))
             \<lparr>TopErrors := getTopErrors rt
                (snd (scan_loop (file_lines file)
                   (\<lparr>LevelCounts = [], TopErrors = [], TotalEntries = 0\<rparr>, []))) 5\<rparr>"
    using assms t ok texts
    by (auto simp: ParseLogFile_def split: prod.splits)
qed

lemma example_lines:
  "split_lines [] (bytes example_file) =
     [''[INFO] a'', ''[ERROR] b'', ''[ERROR] b'', ''garbage line'', ''WARN: c'']"
  by (simp add: example_file_def lines_bytes_def)

lemma example_scan:
  "scan_loop [''[INFO] a'', ''[ERROR] b'', ''[ERROR] b'', ''garbage line'', ''WARN: c'']
     (\<lparr>LevelCounts = [], TopErrors = [], TotalEntries = 0\<rparr>, []) =
   (\<lparr>LevelCounts = [(INFO, 1), (ERROR, 2), (WARN, 1)], TopErrors = [], TotalEntries = 4\<rparr>,
    [(''b'', 2)])"
  by (simp add: scan_step_def parse_defs)

lemma frequency_fields [simp]:
  "ErrorFrequency.Message (frequency p) = fst p" "Count (frequency p) = snd p"
  by (simp_all add: frequency_def split: prod.splits)

lemma top_errors_of_counts:
  assumes rt: "runtime_ok rt" and c: "counts em (mset errs)"
  shows "length (getTopErrors rt em n) = min n (card (set errs))"
    and "distinct (map ErrorFrequency.Message (getTopErrors rt em n))"
    and "\<forall>e \<in> set (getTopErrors rt em n).
           Count e = count_list errs (ErrorFrequency.Message e) \<and>
           ErrorFrequency.Message e \<in> set errs"
    and "sorted_wrt (\<lambda>a b. Count b \<le> Count a) (getTopErrors rt em n)"
    and "\<forall>k \<in> set errs. k \<notin> ErrorFrequency.Message ` set (getTopErrors rt em n) \<longrightarrow>
           (\<forall>e \<in> set (getTopErrors rt em n). count_list errs k \<le> Count e)"
proof -
  from getTopErrors_ranked [OF rt, of em n] obtain es where
    p: "mset es = mset (map frequency em)" and s: "sorted_wrt (\<lambda>a b. Count b \<le> Count a) es"
    and t: "getTopErrors rt em n = take n es"
    by blast
  from p have len: "length es = length em"
    by (metis length_map size_mset)
  from p have set_es: "set es = frequency ` set em"
    by (metis set_map set_mset_mset)
  have keys: "mset (map ErrorFrequency.Message es) = mset (map fst em)"
  proof -
    have "mset (map ErrorFrequency.Message es) = image_mset ErrorFrequency.Message (mset es)"
      by simp
    also have "\<dots> = image_mset ErrorFrequency.Message (image_mset frequency (mset em))"
      using p by simp
    also have "\<dots> = mset (map fst em)"
      by (simp add: image_mset.compositionality comp_def)
    finally show ?thesis .
  qed
  show "length (getTopErrors rt em n) = min n (card (set errs))"
    using counts_length [OF c] len t by (simp add: min.commute)
  have "distinct (map fst em)" using c by (simp add: counts_def)
  with keys have d: "distinct (map ErrorFrequency.Message es)"
    by (metis mset_eq_imp_distinct_iff)
  then show "distinct (map ErrorFrequency.Message (getTopErrors rt em n))"
    by (simp add: t take_map [symmetric] distinct_take)
  have member: "Count e = count_list errs (ErrorFrequency.Message e) \<and>
      ErrorFrequency.Message e \<in> set errs" if "e \<in> set es" for e
  proof -
    from that set_es obtain k n' where e: "e = frequency (k, n')" and m: "(k, n') \<in> set em"
      by auto
    from counts_lookup [OF c m] e show ?thesis
      by (simp add: count_mset)
  qed
  then show "\<forall>e \<in> set (getTopErrors rt em n).
      Count e = count_list errs (ErrorFrequency.Message e) \<and> ErrorFrequency.Message e \<in> set errs"
    using t by (auto dest: in_set_takeD)
  show "sorted_wrt (\<lambda>a b. Count b \<le> Count a) (getTopErrors rt em n)"
    using s t by (simp add: sorted_wrt_take)
  show "\<forall>k \<in> set errs. k \<notin> ErrorFrequency.Message ` set (getTopErrors rt em n) \<longrightarrow>
      (\<forall>e \<in> set (getTopErrors rt em n). count_list errs k \<le> Count e)"
  proof (intro ballI impI)
    fix k e
    assume k: "k \<in> set errs" and out: "k \<notin> ErrorFrequency.Message ` set (getTopErrors rt em n)"
      and e: "e \<in> set (getTopErrors rt em n)"
    from k counts_keys [OF c] obtain n' where m: "(k, n') \<in> set em"
      by force
    then have in_es: "frequency (k, n') \<in> set es"
      using set_es by blast
    have "frequency (k, n') \<notin> set (take n es)"
      using out t by force
    with in_es have "frequency (k, n') \<in> set (drop n es)"
      by (metis Un_iff append_take_drop_id set_append)
    moreover have "\<forall>a \<in> set (take n es). \<forall>b \<in> set (drop n es). Count b \<le> Count a"
    proof -
      have "sorted_wrt (\<lambda>a b. Count b \<le> Count a) (take n es @ drop n es)"
        using s by simp
      then show ?thesis unfolding sorted_wrt_append by blast
    qed
    ultimately have "Count (frequency (k, n')) \<le> Count e"
      using e t by fastforce
    moreover have "n' = count_list errs k"
      using counts_lookup(1) [OF c m] by (simp add: count_mset)
    ultimately show "count_list errs k \<le> Count e" by simp
  qed
qed

text \<open>
  C7. For every analysed file the list of top errors has exactly as many entries as there
  are distinct ERROR messages, and five when there are more; the entries are distinct
  messages of ERROR lines; the count of each entry is the number of ERROR lines with
  exactly that message; the list is in descending order of count; and no message left out
  is more frequent than an entry. The order among equal counts is the runtime's
  (\<open>range\<close> over the map, \<open>sort.Slice\<close>), of which only the contract is assumed.
\<close>

theorem top_errors_ranked:
  assumes "runtime_ok rt" and "fs filePath = Some file"
    and "ParseLogFile rt fs filePath = Inr stats"
  shows
    "length (TopErrors stats) = min 5 (card (set (error_messages (file_lines file)))) \<and>
     distinct (map ErrorFrequency.Message (TopErrors stats)) \<and>
     (\<forall>e \<in> set (TopErrors stats).
        Count e = count_list (error_messages (file_lines file)) (ErrorFrequency.Message e) \<and>
        ErrorFrequency.Message e \<in> set (error_messages (file_lines file))) \<and>
     sorted_wrt (\<lambda>a b. Count b \<le> Count a) (TopErrors stats) \<and>
     (\<forall>k \<in> set (error_messages (file_lines file)).
        k \<notin> ErrorFrequency.Message ` set (TopErrors stats) \<longrightarrow>
        (\<forall>e \<in> set (TopErrors stats). count_list (error_messages (file_lines file)) k \<le> Count e))"
proof -
  let ?init = "(\<lparr>LevelCounts = [], TopErrors = [], TotalEntries = 0\<rparr>, [])"
  let ?em = "snd (scan_loop (file_lines file) ?init)"
  have top: "TopErrors stats = getTopErrors rt ?em 5"
    using ParseLogFile_Inr(3) [OF assms(2,3)] by simp
  have "counts ?em ({#} + mset (error_messages (file_lines file)))"
    using counts_empty by (rule scan_loop_counts)
  then have c: "counts ?em (mset (error_messages (file_lines file)))" by simp
  from top_errors_of_counts [OF assms(1) c, of 5] show ?thesis
    unfolding top by blast
qed

lemma noisy_lines:
  "split_lines [] (bytes noisy_file) =
     [''[ERROR] a'', ''[ERROR] b'', ''[ERROR] a'', ''ERROR: c'', ''[error] d'',
      ''[ERROR] e'', ''  [ERROR] f  '', ''[ERROR] b'', ''[ERROR] a'', ''[INFO] a'']"
  by (simp add: noisy_file_def lines_bytes_def)

lemma noisy_scan:
  "scan_loop [''[ERROR] a'', ''[ERROR] b'', ''[ERROR] a'', ''ERROR: c'', ''[error] d'',
      ''[ERROR] e'', ''  [ERROR] f  '', ''[ERROR] b'', ''[ERROR] a'', ''[INFO] a'']
     (\<lparr>LevelCounts = [], TopErrors = [], TotalEntries = 0\<rparr>, []) =
   (\<lparr>LevelCounts = [(ERROR, 9), (INFO, 1)], TopErrors = [], TotalEntries = 10\<rparr>,
    [(''a'', 3), (''b'', 2), (''c'', 1), (''d'', 1), (''e'', 1), (''f'', 1)])"
  by (simp add: scan_step_def parse_defs)

lemma noisy_run:
  "ParseLogFile a_runtime (\<lambda>p. Some noisy_file) ''app.log'' = Inr noisy_stats"
  by (simp add: ParseLogFile_def noisy_lines noisy_scan MaxScanTokenSize_def dropCR_def
      getTopErrors_def a_runtime_def insertion_sort_def noisy_stats_def more_frequent_def
      noisy_file_def [THEN arg_cong, of read_error] del: scan_loop.simps)

lemma noisy_errors:
  "error_messages (file_lines noisy_file) =
     [''a'', ''b'', ''a'', ''c'', ''d'', ''e'', ''f'', ''b'', ''a'']"
  by (simp add: error_messages_def file_lines_def noisy_lines dropCR_def List.map_filter_simps
      entry_of_def parse_defs)

theorem top_errors_ranked_witness:
  "runtime_ok a_runtime \<and>
   ParseLogFile a_runtime (\<lambda>p. Some noisy_file) ''app.log'' = Inr noisy_stats \<and>
   error_messages (file_lines noisy_file) =
     [''a'', ''b'', ''a'', ''c'', ''d'', ''e'', ''f'', ''b'', ''a''] \<and>
   length (TopErrors noisy_stats) = min 5 (card (set (error_messages (file_lines noisy_file)))) \<and>
   distinct (map ErrorFrequency.Message (TopErrors noisy_stats)) \<and>
   sorted_wrt (\<lambda>a b. Count b \<le> Count a) (TopErrors noisy_stats) \<and>
   map Count (TopErrors noisy_stats) = [3, 2, 1, 1, 1]"
proof -
  have "(\<lambda>p. Some noisy_file) ''app.log'' = Some noisy_file" by simp
  from top_errors_ranked [OF a_runtime_ok this noisy_run] a_runtime_ok noisy_run noisy_errors
  show ?thesis
    by (simp add: noisy_stats_def)
qed

lemma split_lines_no_newline:
  "CHR 0x0A \<notin> set s \<Longrightarrow>
   split_lines cur s = (if cur = [] \<and> s = [] then [] else [rev cur @ s])"
  by (induction s arbitrary: cur) auto

lemma getTopErrors_empty:
  assumes "runtime_ok rt"
  shows "getTopErrors rt [] n = []"
proof -
  from getTopErrors_ranked [OF assms, of "[]" n] show ?thesis by auto
qed

lemma ParseLogFile_open:
  "ParseLogFile rt fs filePath = Inl FailedToOpenLogFile \<longleftrightarrow> fs filePath = None"
  by (auto simp: ParseLogFile_def split: option.splits prod.splits)

lemma ParseLogFile_read:
  "ParseLogFile rt fs filePath = Inl ErrorReadingLogFile \<longleftrightarrow>
     (\<exists>file. fs filePath = Some file \<and>
        (read_error file \<or>
         (\<exists>l \<in> set (split_lines [] (bytes file)). MaxScanTokenSize \<le> length l)))"
proof (cases "fs filePath")
  case None
  then show ?thesis by (simp add: ParseLogFile_def)
next
  case (Some f)
  obtain texts tooLong where t: "scan_tokens (split_lines [] (bytes f)) = (texts, tooLong)"
    by (cases "scan_tokens (split_lines [] (bytes f))")
  then have "tooLong \<longleftrightarrow> (\<exists>l \<in> set (split_lines [] (bytes f)). MaxScanTokenSize \<le> length l)"
    using scan_tokens_long [of "split_lines [] (bytes f)"] by simp
  with Some t show ?thesis
    by (auto simp: ParseLogFile_def split: prod.splits)
qed

lemma ParseLogFile_quiet:
  assumes "runtime_ok rt" "fs filePath = Some file" "\<not> read_error file"
    "\<forall>l \<in> set (split_lines [] (bytes file)). length l < MaxScanTokenSize"
    "\<forall>t \<in> set (file_lines file). entry_of t = None"
  shows "ParseLogFile rt fs filePath = Inr empty_stats"
proof -
  have "\<not> snd (scan_tokens (split_lines [] (bytes file)))"
    using assms(4) by (auto simp: scan_tokens_long)
  then have "scan_tokens (split_lines [] (bytes file)) = (file_lines file, False)"
    using scan_tokens_all [of "split_lines [] (bytes file)"]
    by (cases "scan_tokens (split_lines [] (bytes file))") (simp add: file_lines_def)
  moreover have "scan_loop (file_lines file) (empty_stats, []) = (empty_stats, [])"
    using assms(5) by (rule scan_loop_nothing)
  ultimately show ?thesis
    using assms(1-3) by (simp add: ParseLogFile_def getTopErrors_empty empty_stats_def)
qed

text \<open>
  C8, as amended. \<open>ParseLogFile\<close> returns an error exactly when the file cannot be opened,
  when a read fails, or when a line of the file is 65536 bytes long or longer, the limit of
  the line scanner; the error is the open error or the read error, handed to the caller.
  For every other file it returns the statistics and no error; a file none of whose lines
  matches yields no entries, no level counts and no top errors.
\<close>

theorem ParseLogFile_errors:
  "(ParseLogFile rt fs filePath = Inl FailedToOpenLogFile \<longleftrightarrow> fs filePath = None) \<and>
   (ParseLogFile rt fs filePath = Inl ErrorReadingLogFile \<longleftrightarrow>
      (\<exists>file. fs filePath = Some file \<and>
         (read_error file \<or>
          (\<exists>l \<in> set (split_lines [] (bytes file)). MaxScanTokenSize \<le> length l)))) \<and>
   ((\<exists>stats. ParseLogFile rt fs filePath = Inr stats) \<longleftrightarrow>
      (\<exists>file. fs filePath = Some file \<and> \<not> read_error file \<and>
         (\<forall>l \<in> set (split_lines [] (bytes file)). length l < MaxScanTokenSize))) \<and>
   (runtime_ok rt \<and> fs filePath = Some file \<and> \<not> read_error file \<and>
    (\<forall>l \<in> set (split_lines [] (bytes file)). length l < MaxScanTokenSize) \<and>
    (\<forall>t \<in> set (file_lines file). entry_of t = None) \<longrightarrow>
      ParseLogFile rt fs filePath = Inr empty_stats)"
proof -
  have ok: "(\<exists>stats. ParseLogFile rt fs filePath = Inr stats) \<longleftrightarrow>
      (\<exists>file. fs filePath = Some file \<and> \<not> read_error file \<and>
         (\<forall>l \<in> set (split_lines [] (bytes file)). length l < MaxScanTokenSize))"
  proof -
    have "(\<exists>stats. ParseLogFile rt fs filePath = Inr stats) \<longleftrightarrow>
        ParseLogFile rt fs filePath \<noteq> Inl FailedToOpenLogFile \<and>
        ParseLogFile rt fs filePath \<noteq> Inl ErrorReadingLogFile"
      by (cases "ParseLogFile rt fs filePath") (auto intro: log_error.exhaust)
    then show ?thesis
      unfolding ParseLogFile_open ParseLogFile_read
      by (cases "fs filePath") (auto simp: not_le)
  qed
  show ?thesis
    using ParseLogFile_open [of rt fs filePath] ParseLogFile_read [of rt fs filePath] ok
      ParseLogFile_quiet [of rt fs filePath "file"]
    by blast
qed

theorem ParseLogFile_errors_counterexample:
  "(\<lambda>p. Some long_file) ''app.log'' = Some long_file \<and> \<not> read_error long_file \<and>
   ParseLogFile a_runtime (\<lambda>p. Some long_file) ''app.log'' = Inl ErrorReadingLogFile"
proof -
  have "split_lines [] (bytes long_file) = [replicate 65536 (CHR ''a'')]"
    by (simp add: long_file_def split_lines_no_newline)
  then show ?thesis
    by (simp add: ParseLogFile_def MaxScanTokenSize_def long_file_def)
qed

lemma quiet_lines:
  "split_lines [] (bytes quiet_file) = [''garbage line'', '''', ''INFO no colon'']"
  by (simp add: quiet_file_def lines_bytes_def)

lemma quiet_entries:
  "map entry_of (file_lines quiet_file) = [None, None, None]"
  by (simp add: file_lines_def quiet_lines dropCR_def entry_of_def parse_defs)

theorem ParseLogFile_errors_witness:
  "runtime_ok a_runtime \<and> \<not> read_error quiet_file \<and>
   split_lines [] (bytes quiet_file) = [''garbage line'', '''', ''INFO no colon''] \<and>
   map entry_of (file_lines quiet_file) = [None, None, None] \<and>
   ParseLogFile a_runtime (\<lambda>p. Some quiet_file) ''app.log'' = Inr empty_stats \<and>
   ParseLogFile a_runtime (\<lambda>p. None) ''app.log'' = Inl FailedToOpenLogFile \<and>
   ParseLogFile a_runtime (\<lambda>p. Some (quiet_file\<lparr>read_error := True\<rparr>)) ''app.log'' =
     Inl ErrorReadingLogFile"
proof -
  have h: "\<not> read_error quiet_file"
    "\<forall>l \<in> set (split_lines [] (bytes quiet_file)). length l < MaxScanTokenSize"
    "\<forall>t \<in> set (file_lines quiet_file). entry_of t = None"
    using quiet_entries
    by (simp_all add: quiet_lines MaxScanTokenSize_def file_lines_def dropCR_def)
      (simp add: quiet_file_def)
  have a: "ParseLogFile a_runtime (\<lambda>p. Some quiet_file) ''app.log'' = Inr empty_stats"
    using ParseLogFile_errors [of a_runtime "\<lambda>p. Some quiet_file" "''app.log''" quiet_file]
      a_runtime_ok h
    by simp
  have b: "ParseLogFile a_runtime (\<lambda>p. None) ''app.log'' = Inl FailedToOpenLogFile"
    using ParseLogFile_errors [of a_runtime "\<lambda>p. None" "''app.log''"] by simp
  have c: "ParseLogFile a_runtime (\<lambda>p. Some (quiet_file\<lparr>read_error := True\<rparr>)) ''app.log'' =
      Inl ErrorReadingLogFile"
    using ParseLogFile_errors
      [of a_runtime "\<lambda>p. Some (quiet_file\<lparr>read_error := True\<rparr>)" "''app.log''"]
    by simp
  from a b c h(1) a_runtime_ok quiet_lines quiet_entries show ?thesis
    by simp
qed

lemma ParseLine_level:
  "ParseLine line = Some e \<Longrightarrow> Level e \<in> {INFO, WARN, ERROR, DEBUG}"
proof -
  assume a: "ParseLine line = Some e"
  then have "has_prefix_tag line \<or> has_bracket_tag line"
    using ParseLine_None [of line] by auto
  then obtain g where "is_level_tag g" "Level e = ToUpper g"
    using a ParseLine_prefix [of line] ParseLine_bracket [of line] by (cases "has_prefix_tag line") auto
  then show ?thesis
    using level_of_tag by simp
qed

lemma getTopErrors_single:
  assumes "runtime_ok rt"
  shows "getTopErrors rt [p] 5 = [frequency p]"
proof -
  from getTopErrors_ranked [OF assms, of "[p]" 5] obtain es where
    "mset es = {#frequency p#}" "getTopErrors rt [p] 5 = take 5 es"
    by auto
  then show ?thesis by (cases es) auto
qed

lemma example_any_runtime:
  assumes "runtime_ok rt"
  shows "ParseLogFile rt (\<lambda>p. Some example_file) filePath = Inr example_stats"
  using getTopErrors_single [OF assms, of "(''b'', 2)"]
  by (simp add: ParseLogFile_def example_lines example_scan MaxScanTokenSize_def dropCR_def
      example_stats_def frequency_def
      example_file_def [THEN arg_cong, of read_error] del: scan_loop.simps)

text \<open>
  C6. A line (trimmed, not blank) is recognised exactly when it carries a level tag in one of
  two forms, in any letter case: \<open>[LEVEL]\<close> anywhere in the line, or \<open>LEVEL:\<close> at its
  front, the level one of INFO, WARN, ERROR, DEBUG. A line that is blank or not recognised
  changes neither the level counts nor the number of entries. The message of a recognised
  line is what follows the first \<open>]\<close> (the first \<open>:\<close> for a line with the prefix), with
  the white space around it trimmed, or the whole line when nothing is left. The five
  lines of the example give the counts INFO 1, ERROR 2, WARN 1, four entries and the single
  top error \<open>b\<close> with count 2.
\<close>

theorem ParseLine_forms:
  "(ParseLine line = None \<longleftrightarrow> \<not> has_bracket_tag line \<and> \<not> has_prefix_tag line) \<and>
   (has_prefix_tag line \<longrightarrow>
      (\<exists>g post. line = g @ '':'' @ post \<and> is_level_tag g \<and>
         ParseLine line =
           Some \<lparr>Level = ToUpper g, LogEntry.Message = message_after (CHR '':'') line,
                 Time = []\<rparr>)) \<and>
   (has_bracket_tag line \<and> \<not> has_prefix_tag line \<longrightarrow>
      (\<exists>pre g post. line = pre @ ''['' @ g @ '']'' @ post \<and> is_level_tag g \<and>
         ParseLine line =
           Some \<lparr>Level = ToUpper g, LogEntry.Message = message_after (CHR '']'') line,
                 Time = []\<rparr>)) \<and>
   (\<forall>e. ParseLine line = Some e \<longrightarrow> Level e \<in> {INFO, WARN, ERROR, DEBUG}) \<and>
   (TrimSpace t = [] \<or> ParseLine (TrimSpace t) = None \<longrightarrow> scan_step t st = st) \<and>
   (runtime_ok rt \<longrightarrow> ParseLogFile rt (\<lambda>p. Some example_file) filePath = Inr example_stats)"
  using ParseLine_None [of line] ParseLine_prefix [of line] ParseLine_bracket [of line]
    ParseLine_level [of line] scan_step_skip [of t st] example_any_runtime [of rt filePath]
  by blast

theorem ParseLine_forms_witness:
  "has_prefix_tag ''WARN: c'' \<and>
   (\<exists>g post. ''WARN: c'' = g @ '':'' @ post \<and> is_level_tag g \<and>
      ParseLine ''WARN: c'' =
        Some \<lparr>Level = ToUpper g, LogEntry.Message = message_after (CHR '':'') ''WARN: c'',
              Time = []\<rparr>) \<and>
   message_after (CHR '':'') ''WARN: c'' = ''c'' \<and>
   has_bracket_tag ''x [error] boom'' \<and> \<not> has_prefix_tag ''x [error] boom'' \<and>
   (\<exists>pre g post. ''x [error] boom'' = pre @ ''['' @ g @ '']'' @ post \<and> is_level_tag g \<and>
      ParseLine ''x [error] boom'' =
        Some \<lparr>Level = ToUpper g, LogEntry.Message = message_after (CHR '']'') ''x [error] boom'',
              Time = []\<rparr>) \<and>
   message_after (CHR '']'') ''x [error] boom'' = ''boom'' \<and>
   \<not> has_bracket_tag ''garbage line'' \<and> \<not> has_prefix_tag ''garbage line'' \<and>
   ParseLine ''garbage line'' = None \<and>
   TrimSpace ''   '' = [] \<and> scan_step ''   '' (empty_stats, []) = (empty_stats, []) \<and>
   runtime_ok a_runtime \<and>
   ParseLogFile a_runtime (\<lambda>p. Some example_file) ''app.log'' = Inr example_stats"
proof -
  have p1: "has_prefix_tag ''WARN: c''"
    unfolding has_prefix_tag_def
    by (rule exI [of _ "''WARN''"], rule exI [of _ "'' c''"])
      (simp add: is_level_tag_def level_words_def upper_def)
  have m1: "message_after (CHR '':'') ''WARN: c'' = ''c''"
    by (simp add: message_after_def after_first_def TrimSpace_def space_runes_def
        strip_front.simps)
  have b2: "has_bracket_tag ''x [error] boom''"
    unfolding has_bracket_tag_def
    by (rule exI [of _ "''x ''"], rule exI [of _ "''error''"], rule exI [of _ "'' boom''"])
      (simp add: is_level_tag_def level_words_def upper_def)
  have p2: "\<not> has_prefix_tag ''x [error] boom''"
    by (simp add: has_prefix_tag_iff prefix_at_def match_level_def level_words_def upper_def)
  have m2: "message_after (CHR '']'') ''x [error] boom'' = ''boom''"
    by (simp add: message_after_def after_first_def TrimSpace_def space_runes_def
        strip_front.simps)
  have b3: "\<not> has_bracket_tag ''garbage line''"
    by (simp add: find_bracket_None [symmetric] bracket_at_def)
  have p3: "\<not> has_prefix_tag ''garbage line''"
    by (simp add: has_prefix_tag_iff prefix_at_def match_level_def level_words_def upper_def)
  have t4: "TrimSpace ''   '' = []"
    by (simp add: TrimSpace_def space_runes_def strip_front.simps)
  from ParseLine_forms [of "''WARN: c''"] p1
  have c1: "\<exists>g post. ''WARN: c'' = g @ '':'' @ post \<and> is_level_tag g \<and>
      ParseLine ''WARN: c'' =
        Some \<lparr>Level = ToUpper g, LogEntry.Message = message_after (CHR '':'') ''WARN: c'',
              Time = []\<rparr>"
    by blast
  from ParseLine_forms [of "''x [error] boom''"] b2 p2
  have c2: "\<exists>pre g post. ''x [error] boom'' = pre @ ''['' @ g @ '']'' @ post \<and> is_level_tag g \<and>
      ParseLine ''x [error] boom'' =
        Some \<lparr>Level = ToUpper g, LogEntry.Message = message_after (CHR '']'') ''x [error] boom'',
              Time = []\<rparr>"
    by blast
  from ParseLine_forms [of "''garbage line''"] b3 p3
  have c3: "ParseLine ''garbage line'' = None"
    by blast
  from ParseLine_forms [of _ "''   ''" "(empty_stats, [])"] t4
  have c4: "scan_step ''   '' (empty_stats, []) = (empty_stats, [])"
    by blast
  from ParseLine_forms [of _ _ _ a_runtime "''app.log''"] a_runtime_ok
  have c5: "ParseLogFile a_runtime (\<lambda>p. Some example_file) ''app.log'' = Inr example_stats"
    by blast
  from p1 c1 m1 b2 p2 c2 m2 b3 p3 c3 t4 c4 a_runtime_ok c5 show ?thesis
    by blast
qed

end
